theory Spec2Isabelle
  imports Complex_Main
begin

section \<open>Data model of \<open>clonealign_tree.py\<close>\<close>

text \<open>
  Cells, clade names and row identifiers (genes, SNPs) are Python strings. A clade of the
  phylogenetic tree carries its \<open>name\<close> and the ordered list \<open>clades\<close> of its children;
  a clade is terminal when that list is empty.
\<close>

type_synonym cell = string
type_synonym row_id = string

datatype clade = Clade (name: string) (clades: "clade list")

text \<open>
  \<open>get_terminals\<close> is the library call of the same name: the terminal clades below a
  clade in left-to-right order, the clade itself when it is terminal.
\<close>

fun get_terminals :: "clade \<Rightarrow> clade list" where
  "get_terminals (Clade n cs) =
     (if cs = [] then [Clade n cs] else concat (map get_terminals cs))"

text \<open>
  Python floats are values of a type \<open>'f\<close> that is a parameter of the model, and so are the
  two operations on floats that the traversal uses: \<open>1 - x\<close> and \<open>x >= y\<close>, both in
  double precision (the subtraction rounds, and a comparison with NaN is false). Every
  statement below holds for any such type and operations, those of IEEE 754 among them.
\<close>

record 'f float_ops =
  float_one_minus :: "'f \<Rightarrow> 'f"
  float_ge :: "'f \<Rightarrow> 'f \<Rightarrow> bool"

text \<open>
  A data frame is seen through its row labels, its column labels and its entries;
  \<open>shape[0]\<close> is the number of row labels and \<open>shape[1]\<close> the number of column labels.
  An absent table (\<open>None\<close>) is \<open>None\<close> of the option type.
\<close>

record 'f df =
  index :: "row_id list"
  columns :: "cell list"
  entries :: "'f list list"

text \<open>Exceptions of the traversal, as values.\<close>

datatype error = CollaboratorFailure | LookupError | AttributeError

text \<open>
  What \<open>run_clonealign_pyro_repeat\<close> returns: the frequency of cells without a confident
  assignment, the per-cell index into the list of clean clades (\<open>None\<close> for NaN), the
  per-run table, and the dictionary of parameter summaries (a key may be absent, or map
  to \<open>None\<close>).
\<close>

record 'f clonealign_result =
  none_freq :: 'f
  clone_assign :: "int option list"
  clone_assign_df :: "'f df"
  params :: "string \<rightharpoonup> 'f list option"

text \<open>The five tables handed to the inference call, under the keys of the diagnostics.\<close>

record 'f inputs =
  cnv :: "'f df option"
  expr :: "'f df option"
  hscn :: "'f df option"
  snv_allele :: "'f df option"
  snv :: "'f df option"

record 'f diagnostics =
  diag_input :: "'f inputs"
  diag_output :: "'f clonealign_result option"

text \<open>
  The mutable attributes of the object. \<open>clone_assign_dict\<close> is kept as an association
  list: a store \<open>d[k] = v\<close> puts \<open>(k, v)\<close> in front, and \<open>map_of\<close> reads the dictionary
  (the newest entry of a key wins), so the order of the stores stays visible.
\<close>

record 'f state =
  clone_assign_dict :: "(cell \<times> string) list"
  pruned_clades :: "string set"
  gene_type_score_dict :: "row_id \<rightharpoonup> 'f list"
  allele_assign_prob_dict :: "row_id \<rightharpoonup> 'f list"
  params_dict :: "string \<rightharpoonup> 'f diagnostics"

text \<open>The attributes that the traversal only reads.\<close>

record 'f tree_align =
  tree :: clade
  expr_df :: "'f df option"
  snv_df :: "'f df option"
  infer_s_score :: bool
  infer_b_allele :: bool
  record_input_output :: bool
  min_cell_count_expr :: int
  min_cell_count_cnv :: int
  min_gene_diff :: int
  min_snp_diff :: int
  level_cutoff :: int
  min_proceed_freq :: 'f
  min_record_freq :: 'f

text \<open>
  The methods inherited from the base class \<open>CloneAlign\<close> are parameters of the
  traversal: the three that construct the inputs of a visit, and the inference call,
  which returns \<open>None\<close> when it raises. \<open>make_columns_consistent\<close> changes its three
  arguments in place; here it returns them.
\<close>

record 'f profile_builder =
  construct_total_copy_number_input ::
    "string list list \<Rightarrow> cell list \<Rightarrow> 'f df option \<times> 'f df option"
  construct_allele_specific_input ::
    "string list list \<Rightarrow> cell list \<Rightarrow> 'f df option \<times> 'f df option \<times> 'f df option"
  make_columns_consistent ::
    "'f df option \<Rightarrow> 'f df option \<Rightarrow> 'f df option
       \<Rightarrow> 'f df option \<times> 'f df option \<times> 'f df option"

type_synonym 'f assigner =
  "'f df option \<Rightarrow> 'f df option \<Rightarrow> 'f df option \<Rightarrow> 'f df option \<Rightarrow> 'f df option
     \<Rightarrow> 'f clonealign_result option"

section \<open>Operations on the assignment state\<close>

definition pruned_clades_add :: "string \<Rightarrow> 'f state \<Rightarrow> 'f state" where
  "pruned_clades_add n s = s\<lparr>pruned_clades := insert n (pruned_clades s)\<rparr>"

definition clone_assign_store :: "cell \<Rightarrow> string \<Rightarrow> 'f state \<Rightarrow> 'f state" where
  "clone_assign_store c n s = s\<lparr>clone_assign_dict := (c, n) # clone_assign_dict s\<rparr>"

definition record_clone_assign_to_default :: "cell list \<Rightarrow> clade \<Rightarrow> 'f state \<Rightarrow> 'f state" where
  "record_clone_assign_to_default expr_cells root_clade s =
     fold (\<lambda>c. clone_assign_store c (name root_clade)) expr_cells s"

text \<open>
  Python list indexing: a negative index counts from the end, an index out of range
  raises.
\<close>

definition list_item :: "'a list \<Rightarrow> int \<Rightarrow> error + 'a" where
  "list_item xs i =
     (if 0 \<le> i \<and> i < int (length xs) then Inr (xs ! nat i)
      else if i < 0 \<and> - int (length xs) \<le> i then Inr (xs ! nat (int (length xs) + i))
      else Inl LookupError)"

text \<open>
  The loop of \<open>record_clone_assign_to_dict\<close> runs over the positions of \<open>expr_cells\<close> and
  reads \<open>clone_assign\<close> at the same position, which raises when \<open>clone_assign\<close> is shorter.
\<close>

fun record_clone_assign_to_dict ::
  "cell list \<Rightarrow> int option list \<Rightarrow> clade list \<Rightarrow> 'f state \<Rightarrow> error + 'f state" where
  "record_clone_assign_to_dict [] ca clean_clades s = Inr s"
| "record_clone_assign_to_dict (c # cs) [] clean_clades s = Inl LookupError"
| "record_clone_assign_to_dict (c # cs) (None # ca) clean_clades s =
     record_clone_assign_to_dict cs ca clean_clades s"
| "record_clone_assign_to_dict (c # cs) (Some j # ca) clean_clades s =
     (case list_item clean_clades j of
        Inl e \<Rightarrow> Inl e
      | Inr cl \<Rightarrow> record_clone_assign_to_dict cs ca clean_clades (clone_assign_store c (name cl) s))"

fun record_param_loop ::
  "(row_id \<rightharpoonup> 'f list) \<Rightarrow> row_id list \<Rightarrow> 'f list \<Rightarrow> error + (row_id \<rightharpoonup> 'f list)" where
  "record_param_loop param_dict indices [] = Inr param_dict"
| "record_param_loop param_dict [] (p # ps) = Inl LookupError"
| "record_param_loop param_dict (k # ks) (p # ps) =
     record_param_loop
       (param_dict(k \<mapsto> (case param_dict k of None \<Rightarrow> [] | Some l \<Rightarrow> l) @ [p])) ks ps"

definition record_param_to_dict ::
  "(row_id \<rightharpoonup> 'f list) \<Rightarrow> row_id list \<Rightarrow> 'f list option
     \<Rightarrow> error + (row_id \<rightharpoonup> 'f list)" where
  "record_param_to_dict param_dict indices ps =
     (case ps of None \<Rightarrow> Inr param_dict | Some l \<Rightarrow> record_param_loop param_dict indices l)"

fun check_valid_df_input :: "'f df option list \<Rightarrow> bool" where
  "check_valid_df_input [] = True"
| "check_valid_df_input (arg # argv) =
     (case arg of
        None \<Rightarrow> False
      | Some d \<Rightarrow>
          if length (index d) = 0 \<or> length (columns d) = 0 then False
          else check_valid_df_input argv)"

section \<open>One visit of a clade\<close>

text \<open>
  The loop over the children of the current clade: a child with fewer terminals than
  \<open>min_cell_count_cnv\<close> is added to \<open>pruned_clades\<close>, the others are collected, with the
  names of their terminals, in the order of the children.
\<close>

fun scan_clades ::
  "int \<Rightarrow> clade list \<Rightarrow> string list list \<Rightarrow> clade list \<Rightarrow> 'f state
     \<Rightarrow> string list list \<times> clade list \<times> 'f state" where
  "scan_clades m [] terminals clean_clades s = (terminals, clean_clades, s)"
| "scan_clades m (cl # cls) terminals clean_clades s =
     (let current_terminals = map name (get_terminals cl)
      in if int (length current_terminals) < m
         then scan_clades m cls terminals clean_clades (pruned_clades_add (name cl) s)
         else scan_clades m cls (terminals @ [current_terminals]) (clean_clades @ [cl]) s)"

text \<open>
  The body of \<open>assign_cells_to_clade\<close> up to the inference call (source lines 144 to 254)
  ends in one of three ways: it returns, it descends into the only clean child, or it
  reaches the inference call with the clean clades, the constructed inputs and the two
  flags \<open>has_total_copy_number_data\<close> and \<open>has_allele_specific_data\<close>.
\<close>

datatype 'f guard_result =
    Return "'f state"
  | OneChild "'f state" clade
  | RunCloneAlign "'f state" "clade list" "'f inputs" bool bool

definition visit_guards ::
  "'f tree_align \<Rightarrow> 'f profile_builder \<Rightarrow> clade \<Rightarrow> cell list \<Rightarrow> int \<Rightarrow> 'f state \<Rightarrow> 'f guard_result" where
  "visit_guards self pb current_clade expr_cells level s =
     (if level > level_cutoff self then Return (pruned_clades_add (name current_clade) s)
      else
        let all_terminals = get_terminals current_clade in
        if int (length expr_cells) < min_cell_count_expr self
           \<or> int (length all_terminals) < min_cell_count_cnv self
        then Return (pruned_clades_add (name current_clade) s)
        else
          case scan_clades (min_cell_count_cnv self) (clades current_clade) [] [] s of
            (terminals, clean_clades, s1) \<Rightarrow>
          if length clean_clades = 1
          then OneChild
                 (fold (\<lambda>cell. clone_assign_store cell (name (clean_clades ! 0))) expr_cells s1)
                 (clean_clades ! 0)
          else if length clean_clades = 0 then Return s1
          else
            case construct_total_copy_number_input pb terminals expr_cells of
              (expr_input0, clone_cnv_df0) \<Rightarrow>
            case construct_allele_specific_input pb terminals expr_cells of
              (hscn_input0, snv_allele_input0, snv_input0) \<Rightarrow>
            case make_columns_consistent pb expr_input0 snv_allele_input0 snv_input0 of
              (expr_input1, snv_allele_input1, snv_input1) \<Rightarrow>
            let has_allele_specific_data =
                  check_valid_df_input [hscn_input0, snv_allele_input1, snv_input1];
                has_total_copy_number_data =
                  check_valid_df_input [expr_input1, clone_cnv_df0];
                gene_count =
                  (if has_total_copy_number_data
                   then (case clone_cnv_df0 of Some d \<Rightarrow> int (length (index d)) | None \<Rightarrow> 0)
                   else 0);
                clone_cnv_df = (if has_total_copy_number_data then clone_cnv_df0 else None);
                expr_input = (if has_total_copy_number_data then expr_input1 else None);
                snp_count =
                  (if has_allele_specific_data
                   then (case hscn_input0 of Some d \<Rightarrow> int (length (index d)) | None \<Rightarrow> 0)
                   else 0);
                hscn_input = (if has_allele_specific_data then hscn_input0 else None);
                snv_allele_input = (if has_allele_specific_data then snv_allele_input1 else None);
                snv_input = (if has_allele_specific_data then snv_input1 else None)
            in
            if \<not> has_total_copy_number_data \<and> \<not> has_allele_specific_data
            then Return (fold (\<lambda>clade. pruned_clades_add (name clade)) clean_clades s1)
            else if gene_count < min_gene_diff self \<and> snp_count < min_snp_diff self
            then Return (fold (\<lambda>clade. pruned_clades_add (name clade)) clean_clades s1)
            else
              let inp = \<lparr>cnv = clone_cnv_df, expr = expr_input, hscn = hscn_input,
                         snv_allele = snv_allele_input, snv = snv_input\<rparr>;
                  s2 = (if record_input_output self
                        then s1\<lparr>params_dict := (params_dict s1)
                               (name current_clade \<mapsto> \<lparr>diag_input = inp, diag_output = None\<rparr>)\<rparr>
                        else s1)
              in RunCloneAlign s2 clean_clades inp
                   has_total_copy_number_data has_allele_specific_data)"

text \<open>
  The rest of the body (source lines 258 to 294), given what the inference call
  returned: the diagnostics, the recording decision and the proceed decision. The result
  is the state reached and whether the visit goes on into the clean clades.
\<close>

datatype 'f decision = Stop (decided_state: "'f state") | Proceed (decided_state: "'f state")

definition record_output :: "'f tree_align \<Rightarrow> clade \<Rightarrow> 'f clonealign_result \<Rightarrow> 'f state \<Rightarrow> error + 'f state" where
  "record_output self current_clade r s =
     (if record_input_output self
      then (case params_dict s (name current_clade) of
              None \<Rightarrow> Inl LookupError
            | Some d \<Rightarrow>
                Inr (s\<lparr>params_dict := (params_dict s)
                        (name current_clade \<mapsto> d\<lparr>diag_output := Some r\<rparr>)\<rparr>))
      else Inr s)"

definition record_gene_type_score ::
  "'f tree_align \<Rightarrow> 'f inputs \<Rightarrow> bool \<Rightarrow> 'f clonealign_result \<Rightarrow> 'f state \<Rightarrow> error + 'f state" where
  "record_gene_type_score self inp has_total_copy_number_data r s =
     (if has_total_copy_number_data \<and> infer_s_score self
      then (case cnv inp of
              None \<Rightarrow> Inl AttributeError
            | Some clone_cnv_df \<Rightarrow>
               (case params r ''mean_gene_type_score'' of
                  None \<Rightarrow> Inl LookupError
                | Some ps \<Rightarrow>
                   (case record_param_to_dict (gene_type_score_dict s) (index clone_cnv_df) ps of
                      Inl e \<Rightarrow> Inl e
                    | Inr d \<Rightarrow> Inr (s\<lparr>gene_type_score_dict := d\<rparr>))))
      else Inr s)"

definition record_allele_assign_prob ::
  "'f tree_align \<Rightarrow> 'f inputs \<Rightarrow> bool \<Rightarrow> 'f clonealign_result \<Rightarrow> 'f state \<Rightarrow> error + 'f state" where
  "record_allele_assign_prob self inp has_allele_specific_data r s =
     (if has_allele_specific_data \<and> infer_b_allele self
      then (case hscn inp of
              None \<Rightarrow> Inl AttributeError
            | Some hscn_input \<Rightarrow>
               (case params r ''mean_allele_assign_prob'' of
                  None \<Rightarrow> Inl LookupError
                | Some ps \<Rightarrow>
                   (case record_param_to_dict (allele_assign_prob_dict s) (index hscn_input) ps of
                      Inl e \<Rightarrow> Inl e
                    | Inr d \<Rightarrow> Inr (s\<lparr>allele_assign_prob_dict := d\<rparr>))))
      else Inr s)"

definition record_results ::
  "'f float_ops \<Rightarrow> 'f tree_align \<Rightarrow> cell list \<Rightarrow> clade list \<Rightarrow> 'f inputs \<Rightarrow> bool \<Rightarrow> bool \<Rightarrow> 'f clonealign_result
     \<Rightarrow> 'f state \<Rightarrow> error + 'f state" where
  "record_results fl self expr_cells clean_clades inp has_total_copy_number_data
       has_allele_specific_data r s =
     (if float_ge fl (float_one_minus fl (none_freq r)) (min_record_freq self)
      then (case record_clone_assign_to_dict expr_cells (clone_assign r) clean_clades s of
              Inl e \<Rightarrow> Inl e
            | Inr s1 \<Rightarrow>
               (case record_gene_type_score self inp has_total_copy_number_data r s1 of
                  Inl e \<Rightarrow> Inl e
                | Inr s2 \<Rightarrow> record_allele_assign_prob self inp has_allele_specific_data r s2))
      else Inr s)"

definition record_and_decide ::
  "'f float_ops \<Rightarrow> 'f tree_align \<Rightarrow> clade \<Rightarrow> cell list \<Rightarrow> clade list \<Rightarrow> 'f inputs \<Rightarrow> bool \<Rightarrow> bool
     \<Rightarrow> 'f clonealign_result \<Rightarrow> 'f state \<Rightarrow> error + 'f decision" where
  "record_and_decide fl self current_clade expr_cells clean_clades inp
       has_total_copy_number_data has_allele_specific_data r s =
     (case record_output self current_clade r s of
        Inl e \<Rightarrow> Inl e
      | Inr s1 \<Rightarrow>
         (case record_results fl self expr_cells clean_clades inp has_total_copy_number_data
                 has_allele_specific_data r s1 of
            Inl e \<Rightarrow> Inl e
          | Inr s2 \<Rightarrow>
              if float_ge fl (float_one_minus fl (none_freq r)) (min_record_freq self)
          \<and> float_ge fl (float_one_minus fl (none_freq r)) (min_proceed_freq self)
              then Inr (Proceed s2)
              else Inr (Stop (fold (\<lambda>cl. pruned_clades_add (name cl)) clean_clades s2))))"

text \<open>
  The cells handed to the clean clade of index \<open>i\<close>: the list comprehension
  \<open>[expr_cells[k] for k in range(len(expr_cells)) if clone_assign[k] == i]\<close>.
\<close>

fun new_expr_cells :: "cell list \<Rightarrow> int option list \<Rightarrow> int \<Rightarrow> error + cell list" where
  "new_expr_cells [] ca i = Inr []"
| "new_expr_cells (c # cs) [] i = Inl LookupError"
| "new_expr_cells (c # cs) (a # ca) i =
     (case new_expr_cells cs ca i of
        Inl e \<Rightarrow> Inl e
      | Inr rest \<Rightarrow> Inr (if a = Some i then c # rest else rest))"

section \<open>The recursive descent\<close>

text \<open>
  \<open>assign_cells_to_clade\<close> with the loop of its last branch (source lines 286 to 288),
  which visits the clean clade of index \<open>i\<close> at \<open>level + 1\<close> with the cells whose returned
  index is \<open>i\<close>. The recursion terminates because a visit recurses only when
  \<open>level \<le> level_cutoff\<close>, and every recursive visit is one level deeper.
\<close>

function assign_cells_to_clade ::
  "'f float_ops \<Rightarrow> 'f tree_align \<Rightarrow> 'f profile_builder \<Rightarrow> 'f assigner \<Rightarrow> clade \<Rightarrow> cell list \<Rightarrow> int \<Rightarrow> 'f state
     \<Rightarrow> error + 'f state"
and proceed_loop ::
  "'f float_ops \<Rightarrow> 'f tree_align \<Rightarrow> 'f profile_builder \<Rightarrow> 'f assigner \<Rightarrow> clade list \<Rightarrow> int \<Rightarrow> cell list
     \<Rightarrow> int option list \<Rightarrow> int \<Rightarrow> 'f state \<Rightarrow> error + 'f state" where
  "assign_cells_to_clade fl self pb run_clonealign_pyro_repeat current_clade expr_cells level s =
     (case visit_guards self pb current_clade expr_cells level s of
        Return s' \<Rightarrow> Inr s'
      | OneChild s' child \<Rightarrow>
          assign_cells_to_clade fl self pb run_clonealign_pyro_repeat child expr_cells (level + 1) s'
      | RunCloneAlign s' clean_clades inp has_total_copy_number_data has_allele_specific_data \<Rightarrow>
         (case run_clonealign_pyro_repeat (cnv inp) (expr inp) (hscn inp) (snv_allele inp)
                 (snv inp) of
            None \<Rightarrow> Inl CollaboratorFailure
          | Some r \<Rightarrow>
             (case record_and_decide fl self current_clade expr_cells clean_clades inp
                     has_total_copy_number_data has_allele_specific_data r s' of
                Inl e \<Rightarrow> Inl e
              | Inr (Stop s'') \<Rightarrow> Inr s''
              | Inr (Proceed s'') \<Rightarrow>
                  proceed_loop fl self pb run_clonealign_pyro_repeat clean_clades 0 expr_cells
                    (clone_assign r) level s'')))"
| "proceed_loop fl self pb run_clonealign_pyro_repeat [] i expr_cells ca level s = Inr s"
| "proceed_loop fl self pb run_clonealign_pyro_repeat (cl # cls) i expr_cells ca level s =
     (case new_expr_cells expr_cells ca i of
        Inl e \<Rightarrow> Inl e
      | Inr cells \<Rightarrow>
         (case assign_cells_to_clade fl self pb run_clonealign_pyro_repeat cl cells (level + 1) s of
            Inl e \<Rightarrow> Inl e
          | Inr s' \<Rightarrow>
              proceed_loop fl self pb run_clonealign_pyro_repeat cls (i + 1) expr_cells ca level s'))"
  by pat_completeness auto
termination
  apply (relation "inv_image (less_than <*lex*> less_than)
     (\<lambda>x. case x of
        Inl (fl, self, pb, run, cl, cells, level, s) \<Rightarrow> (nat (level_cutoff self + 1 - level), 0)
      | Inr (fl, self, pb, run, cls, i, cells, ca, level, s) \<Rightarrow>
          (nat (level_cutoff self - level), Suc (length cls)))")
  apply (auto simp: visit_guards_def split: if_splits)
  done

declare assign_cells_to_clade.simps [simp del]

text \<open>
  The same descent with a budget \<open>d\<close> of nested recursive visits below the current one:
  \<open>None\<close> when a visit would have to recurse with no budget left.
\<close>

fun assign_cells_to_clade_within ::
  "'f float_ops \<Rightarrow> nat \<Rightarrow> 'f tree_align \<Rightarrow> 'f profile_builder \<Rightarrow> 'f assigner \<Rightarrow> clade \<Rightarrow> cell list \<Rightarrow> int \<Rightarrow> 'f state
     \<Rightarrow> (error + 'f state) option"
and proceed_loop_within ::
  "'f float_ops \<Rightarrow> nat \<Rightarrow> 'f tree_align \<Rightarrow> 'f profile_builder \<Rightarrow> 'f assigner \<Rightarrow> clade list \<Rightarrow> int \<Rightarrow> cell list
     \<Rightarrow> int option list \<Rightarrow> int \<Rightarrow> 'f state \<Rightarrow> (error + 'f state) option" where
  "assign_cells_to_clade_within fl d self pb run_clonealign_pyro_repeat current_clade expr_cells
       level s =
     (case visit_guards self pb current_clade expr_cells level s of
        Return s' \<Rightarrow> Some (Inr s')
      | OneChild s' child \<Rightarrow>
         (case d of
            0 \<Rightarrow> None
          | Suc d' \<Rightarrow>
              assign_cells_to_clade_within fl d' self pb run_clonealign_pyro_repeat child expr_cells
                (level + 1) s')
      | RunCloneAlign s' clean_clades inp has_total_copy_number_data has_allele_specific_data \<Rightarrow>
         (case run_clonealign_pyro_repeat (cnv inp) (expr inp) (hscn inp) (snv_allele inp)
                 (snv inp) of
            None \<Rightarrow> Some (Inl CollaboratorFailure)
          | Some r \<Rightarrow>
             (case record_and_decide fl self current_clade expr_cells clean_clades inp
                     has_total_copy_number_data has_allele_specific_data r s' of
                Inl e \<Rightarrow> Some (Inl e)
              | Inr (Stop s'') \<Rightarrow> Some (Inr s'')
              | Inr (Proceed s'') \<Rightarrow>
                 (case d of
                    0 \<Rightarrow> None
                  | Suc d' \<Rightarrow>
                      proceed_loop_within fl d' self pb run_clonealign_pyro_repeat clean_clades 0
                        expr_cells (clone_assign r) level s''))))"
| "proceed_loop_within fl d self pb run_clonealign_pyro_repeat [] i expr_cells ca level s =
     Some (Inr s)"
| "proceed_loop_within fl d self pb run_clonealign_pyro_repeat (cl # cls) i expr_cells ca level s =
     (case new_expr_cells expr_cells ca i of
        Inl e \<Rightarrow> Some (Inl e)
      | Inr cells \<Rightarrow>
         (case assign_cells_to_clade_within fl d self pb run_clonealign_pyro_repeat cl cells
                 (level + 1) s of
            None \<Rightarrow> None
          | Some (Inl e) \<Rightarrow> Some (Inl e)
          | Some (Inr s') \<Rightarrow>
              proceed_loop_within fl d self pb run_clonealign_pyro_repeat cls (i + 1) expr_cells ca
                level s'))"

declare assign_cells_to_clade_within.simps [simp del]

section \<open>The entry point\<close>

text \<open>
  \<open>assign_cells_to_tree\<close> empties \<open>pruned_clades\<close>, takes the cells from the columns of
  \<open>expr_df\<close>, or of \<open>snv_df\<close> when \<open>expr_df\<close> is \<open>None\<close> (reading the columns of \<open>None\<close>
  raises), sets every cell to the name of the root clade and visits the root at level 0.
\<close>

definition input_cells :: "'f tree_align \<Rightarrow> error + cell list" where
  "input_cells self =
     (case expr_df self of
        Some d \<Rightarrow> Inr (columns d)
      | None \<Rightarrow> (case snv_df self of Some d \<Rightarrow> Inr (columns d) | None \<Rightarrow> Inl AttributeError))"

definition assign_cells_to_tree ::
  "'f float_ops \<Rightarrow> 'f tree_align \<Rightarrow> 'f profile_builder \<Rightarrow> 'f assigner \<Rightarrow> 'f state \<Rightarrow> error + 'f state" where
  "assign_cells_to_tree fl self pb run_clonealign_pyro_repeat s =
     (let s0 = s\<lparr>pruned_clades := {}\<rparr> in
      case input_cells self of
        Inl e \<Rightarrow> Inl e
      | Inr cells \<Rightarrow>
          assign_cells_to_clade fl self pb run_clonealign_pyro_repeat (tree self) cells 0
            (record_clone_assign_to_default cells (tree self) s0))"

section \<open>Notions used in the statements\<close>

text \<open>
  The clean clades of a visit are the children of the current clade that the loop of
  \<open>scan_clades\<close> keeps, in their order; the small ones are those it adds to
  \<open>pruned_clades\<close>. \<open>terminals_of\<close> is the list \<open>terminals\<close> built along with them.
\<close>

definition clean_clades_of :: "'f tree_align \<Rightarrow> clade \<Rightarrow> clade list" where
  "clean_clades_of self current_clade =
     filter (\<lambda>cl. \<not> int (length (get_terminals cl)) < min_cell_count_cnv self)
       (clades current_clade)"

definition small_clades_of :: "'f tree_align \<Rightarrow> clade \<Rightarrow> clade list" where
  "small_clades_of self current_clade =
     filter (\<lambda>cl. int (length (get_terminals cl)) < min_cell_count_cnv self)
       (clades current_clade)"

definition terminals_of :: "clade list \<Rightarrow> string list list" where
  "terminals_of cls = map (\<lambda>cl. map name (get_terminals cl)) cls"

text \<open>
  The stores that the loop of \<open>record_clone_assign_to_dict\<close> makes, oldest first, when it
  does not raise; the cells handed to the clean clade of index \<open>i\<close>; and a loop over a list
  that threads the state and stops at the first exception.
\<close>

fun commit_stores :: "cell list \<Rightarrow> int option list \<Rightarrow> clade list \<Rightarrow> (cell \<times> string) list" where
  "commit_stores (c # cs) (Some j # ca) cc =
     (c, name (cc ! nat (if j < 0 then int (length cc) + j else j))) # commit_stores cs ca cc"
| "commit_stores (c # cs) (None # ca) cc = commit_stores cs ca cc"
| "commit_stores cs ca cc = []"

definition child_cells :: "cell list \<Rightarrow> int option list \<Rightarrow> int \<Rightarrow> cell list" where
  "child_cells expr_cells ca i = map fst (filter (\<lambda>(c, a). a = Some i) (zip expr_cells ca))"

fun fold_result :: "('a \<Rightarrow> 's \<Rightarrow> error + 's) \<Rightarrow> 'a list \<Rightarrow> 's \<Rightarrow> error + 's" where
  "fold_result f [] s = Inr s"
| "fold_result f (x # xs) s = (case f x s of Inl e \<Rightarrow> Inl e | Inr s' \<Rightarrow> fold_result f xs s')"

text \<open>
  The values that a cell takes in a list of stores (newest first, as in
  \<open>clone_assign_dict\<close>), oldest first; and a downward path of the tree: every clade of
  the list is a child of the one before it.
\<close>

definition values_of :: "cell \<Rightarrow> (cell \<times> string) list \<Rightarrow> string list" where
  "values_of c W = rev (map snd (filter (\<lambda>p. fst p = c) W))"

fun is_path :: "clade list \<Rightarrow> bool" where
  "is_path (x # y # p) = (y \<in> set (clades x) \<and> is_path (y # p))"
| "is_path p = True"

text \<open>
  The validity of a table in the words of the specification: the table is present, with at
  least one row and at least one column.
\<close>

definition table_valid :: "'f df option \<Rightarrow> bool" where
  "table_valid t =
     (case t of None \<Rightarrow> False | Some d \<Rightarrow> 1 \<le> length (index d) \<and> 1 \<le> length (columns d))"

subsection \<open>Concrete inputs\<close>

text \<open>
  A root \<open>R\<close> with two children of two terminals each and a third, terminal child; three
  cells; builders that return a usable total-copy-number track (or nothing at all, or
  tables of which one per track is not valid); an inference stub that is confident about
  two of the three cells.
\<close>

definition ex_A :: clade where
  "ex_A = Clade ''A'' [Clade ''a1'' [], Clade ''a2'' []]"

definition ex_B :: clade where
  "ex_B = Clade ''B'' [Clade ''b1'' [], Clade ''b2'' []]"

definition ex_tree :: clade where
  "ex_tree = Clade ''R'' [ex_A, ex_B, Clade ''c1'' []]"

definition ex_chain :: clade where
  "ex_chain = Clade ''R'' [ex_A, Clade ''c1'' []]"

text \<open>
  The examples take the reals for the floats, with the subtraction and the comparison of
  the reals. Their thresholds and frequencies are \<open>1 / 4\<close> and \<open>1 / 2\<close>, where the
  subtraction from one is exact in double precision too, so that Python computes the same
  values and the same tests.
\<close>

definition ex_float :: "real float_ops" where
  "ex_float = \<lparr>float_one_minus = (\<lambda>x. 1 - x), float_ge = (\<lambda>x y. x \<ge> y)\<rparr>"

definition ex_cells :: "cell list" where
  "ex_cells = [''x1'', ''x2'', ''x3'']"

definition ex_expr :: "real df" where
  "ex_expr = \<lparr>index = [''g1''], columns = ex_cells, entries = [[1, 2, 3]]\<rparr>"

definition ex_cnv :: "real df" where
  "ex_cnv = \<lparr>index = [''g1''], columns = [''A'', ''B''], entries = [[1, 2]]\<rparr>"

definition ex_self :: "real tree_align" where
  "ex_self = \<lparr>tree = ex_tree, expr_df = Some ex_expr, snv_df = None,
     infer_s_score = True, infer_b_allele = True, record_input_output = False,
     min_cell_count_expr = 1, min_cell_count_cnv = 2, min_gene_diff = 1, min_snp_diff = 1,
     level_cutoff = 10, min_proceed_freq = 1 / 2, min_record_freq = 1 / 2\<rparr>"

definition ex_pb :: "real profile_builder" where
  "ex_pb = \<lparr>construct_total_copy_number_input = (\<lambda>terminals cells. (Some ex_expr, Some ex_cnv)),
     construct_allele_specific_input = (\<lambda>terminals cells. (None, None, None)),
     make_columns_consistent = (\<lambda>a b c. (a, b, c))\<rparr>"

definition ex_pb_none :: "real profile_builder" where
  "ex_pb_none = \<lparr>construct_total_copy_number_input = (\<lambda>terminals cells. (None, None)),
     construct_allele_specific_input = (\<lambda>terminals cells. (None, None, None)),
     make_columns_consistent = (\<lambda>a b c. (a, b, c))\<rparr>"

definition ex_pb_partial :: "real profile_builder" where
  "ex_pb_partial = \<lparr>construct_total_copy_number_input =
       (\<lambda>terminals cells. (Some ex_expr, Some (ex_cnv\<lparr>index := [], entries := []\<rparr>))),
     construct_allele_specific_input = (\<lambda>terminals cells. (Some ex_cnv, Some ex_expr, None)),
     make_columns_consistent = (\<lambda>a b c. (a, b, c))\<rparr>"

definition ex_inputs :: "real inputs" where
  "ex_inputs = \<lparr>cnv = Some ex_cnv, expr = Some ex_expr, hscn = None, snv_allele = None,
     snv = None\<rparr>"

definition ex_result :: "real clonealign_result" where
  "ex_result = \<lparr>none_freq = 1 / 4, clone_assign = [Some 0, Some 1, None],
     clone_assign_df = ex_cnv, params = [''mean_gene_type_score'' \<mapsto> Some [1 / 2]]\<rparr>"

definition ex_run :: "real assigner" where
  "ex_run = (\<lambda>c e h a v. Some ex_result)"

definition ex_state :: "real state" where
  "ex_state = \<lparr>clone_assign_dict = [], pruned_clades = {}, gene_type_score_dict = Map.empty,
     allele_assign_prob_dict = Map.empty, params_dict = Map.empty\<rparr>"

text \<open>
  The states of a run on these inputs: after the initialisation, after the guards of the
  root visit, after its recording, and at the end.
\<close>

definition ex_s0 :: "real state" where
  "ex_s0 = ex_state\<lparr>clone_assign_dict := [(''x3'', ''R''), (''x2'', ''R''), (''x1'', ''R'')]\<rparr>"

definition ex_s1 :: "real state" where
  "ex_s1 = ex_s0\<lparr>pruned_clades := {''c1''}\<rparr>"

definition ex_s2 :: "real state" where
  "ex_s2 = ex_s1\<lparr>clone_assign_dict :=
                   [(''x2'', ''B''), (''x1'', ''A''), (''x3'', ''R''), (''x2'', ''R''), (''x1'', ''R'')],
                 gene_type_score_dict := [''g1'' \<mapsto> [1 / 2]]\<rparr>"

definition ex_final :: "real state" where
  "ex_final = ex_s2\<lparr>pruned_clades := {''a1'', ''a2'', ''b1'', ''b2'', ''c1''}\<rparr>"

text \<open>The same inputs with a cell identifier that labels two columns.\<close>

definition ex_self_dup :: "real tree_align" where
  "ex_self_dup = ex_self\<lparr>expr_df := Some (ex_expr\<lparr>columns := [''x1'', ''x1'']\<rparr>)\<rparr>"

definition ex_dup_final :: "real state" where
  "ex_dup_final = ex_state\<lparr>
     clone_assign_dict := [(''x1'', ''B''), (''x1'', ''A''), (''x1'', ''R''), (''x1'', ''R'')],
     pruned_clades := {''a1'', ''a2'', ''b1'', ''b2'', ''c1''},
     gene_type_score_dict := [''g1'' \<mapsto> [1 / 2]]\<rparr>"

text \<open>
  An inference result for these two columns with a missing index at the first, and the
  states of the run that gets it.
\<close>

definition ex_result_dup :: "real clonealign_result" where
  "ex_result_dup = \<lparr>none_freq = 1 / 2, clone_assign = [None, Some 0],
     clone_assign_df = ex_cnv, params = [''mean_gene_type_score'' \<mapsto> Some [1 / 2]]\<rparr>"

definition ex_dup_s0 :: "real state" where
  "ex_dup_s0 = ex_state\<lparr>clone_assign_dict := [(''x1'', ''R''), (''x1'', ''R'')]\<rparr>"

definition ex_dup_s1 :: "real state" where
  "ex_dup_s1 = ex_dup_s0\<lparr>pruned_clades := {''c1''}\<rparr>"

definition ex_dup_s2 :: "real state" where
  "ex_dup_s2 = ex_dup_s1\<lparr>clone_assign_dict := [(''x1'', ''A''), (''x1'', ''R''), (''x1'', ''R'')],
                 gene_type_score_dict := [''g1'' \<mapsto> [1 / 2]]\<rparr>"

definition ex_dup_end :: "real state" where
  "ex_dup_end = ex_dup_s2\<lparr>pruned_clades := {''a1'', ''a2'', ''B'', ''c1''}\<rparr>"

text \<open>The state after a second run on the same object.\<close>

definition ex_final2 :: "real state" where
  "ex_final2 = ex_final\<lparr>clone_assign_dict := clone_assign_dict ex_final @ clone_assign_dict ex_final,
                          gene_type_score_dict := [''g1'' \<mapsto> [1 / 2, 1 / 2]]\<rparr>"

section \<open>Facts about the operations and about one visit\<close>

lemma visit_guards_OneChild_level:
  "visit_guards self pb current_clade expr_cells level s = OneChild s' ch
     \<Longrightarrow> level \<le> level_cutoff self"
  by (auto simp: visit_guards_def split: if_splits)

lemma visit_guards_Run_level:
  "visit_guards self pb current_clade expr_cells level s = RunCloneAlign s' cc inp a b
     \<Longrightarrow> level \<le> level_cutoff self"
  by (auto simp: visit_guards_def split: if_splits)


lemma fold_prune_fields [simp]:
  "pruned_clades (fold (\<lambda>cl. pruned_clades_add (name cl)) cls s) = pruned_clades s \<union> name ` set cls"
  "clone_assign_dict (fold (\<lambda>cl. pruned_clades_add (name cl)) cls s) = clone_assign_dict s"
  "gene_type_score_dict (fold (\<lambda>cl. pruned_clades_add (name cl)) cls s) = gene_type_score_dict s"
  "allele_assign_prob_dict (fold (\<lambda>cl. pruned_clades_add (name cl)) cls s) = allele_assign_prob_dict s"
  "params_dict (fold (\<lambda>cl. pruned_clades_add (name cl)) cls s) = params_dict s"
  by (induction cls arbitrary: s; simp add: pruned_clades_add_def; blast?)+

lemma fold_prune_eq:
  "fold (\<lambda>cl. pruned_clades_add (name cl)) cls s = s\<lparr>pruned_clades := pruned_clades s \<union> name ` set cls\<rparr>"
  by (induction cls arbitrary: s) (auto simp: pruned_clades_add_def)

lemma fold_store_fields [simp]:
  "clone_assign_dict (fold (\<lambda>c. clone_assign_store c n) cs s) = rev (map (\<lambda>c. (c, n)) cs) @ clone_assign_dict s"
  "pruned_clades (fold (\<lambda>c. clone_assign_store c n) cs s) = pruned_clades s"
  "gene_type_score_dict (fold (\<lambda>c. clone_assign_store c n) cs s) = gene_type_score_dict s"
  "allele_assign_prob_dict (fold (\<lambda>c. clone_assign_store c n) cs s) = allele_assign_prob_dict s"
  "params_dict (fold (\<lambda>c. clone_assign_store c n) cs s) = params_dict s"
  by (induction cs arbitrary: s; simp add: clone_assign_store_def)+

lemma scan_clades_eq:
  "scan_clades m cls ts cc s =
     (ts @ terminals_of (filter (\<lambda>cl. \<not> int (length (get_terminals cl)) < m) cls),
      cc @ filter (\<lambda>cl. \<not> int (length (get_terminals cl)) < m) cls,
      fold (\<lambda>cl. pruned_clades_add (name cl)) (filter (\<lambda>cl. int (length (get_terminals cl)) < m) cls) s)"
  by (induction cls arbitrary: ts cc s) (simp_all add: terminals_of_def Let_def)

lemma scan_clades_self:
  "scan_clades (min_cell_count_cnv self) (clades X) [] [] s =
     (terminals_of (clean_clades_of self X), clean_clades_of self X,
      fold (\<lambda>cl. pruned_clades_add (name cl)) (small_clades_of self X) s)"
  by (simp add: scan_clades_eq clean_clades_of_def small_clades_of_def)

lemma clean_small_names:
  "name ` set (small_clades_of self X) \<union> name ` set (clean_clades_of self X) = name ` set (clades X)"
  by (auto simp: clean_clades_of_def small_clades_of_def)

lemma check_valid_df_input_iff:
  "check_valid_df_input ts \<longleftrightarrow>
     (\<forall>t \<in> set ts. \<exists>d. t = Some d \<and> 1 \<le> length (index d) \<and> 1 \<le> length (columns d))"
  by (induction ts) (auto simp: Suc_le_eq split: option.splits)

lemmas ex_defs = ex_float_def ex_A_def ex_B_def ex_tree_def ex_chain_def ex_cells_def ex_expr_def ex_cnv_def
  ex_self_def ex_pb_def ex_pb_none_def ex_inputs_def ex_result_def ex_run_def ex_state_def
  ex_s0_def ex_s1_def ex_s2_def ex_final_def

lemma map_of_rev_const:
  "map_of (rev (map (\<lambda>c. (c, n)) cs)) c = (if c \<in> set cs then Some n else None)"
  by (induction cs) (auto simp: map_add_def split: option.splits)

lemma list_item_Inr:
  "list_item xs j = Inr x \<Longrightarrow>
     x = xs ! nat (if j < 0 then int (length xs) + j else j) \<and> x \<in> set xs
     \<and> - int (length xs) \<le> j \<and> j < int (length xs)"
  by (auto simp: list_item_def split: if_splits)

lemma record_clone_assign_to_dict_Inr:
  "record_clone_assign_to_dict cs ca cc s = Inr s' \<Longrightarrow>
     s' = s\<lparr>clone_assign_dict := rev (commit_stores cs ca cc) @ clone_assign_dict s\<rparr>
     \<and> length cs \<le> length ca"
proof (induction cs ca cc s rule: record_clone_assign_to_dict.induct)
  case (4 c cs j ca clean_clades s)
  then show ?case
    by (auto simp: clone_assign_store_def split: sum.splits dest!: list_item_Inr)
qed auto

lemma commit_stores_subset:
  "record_clone_assign_to_dict cs ca cc s = Inr s' \<Longrightarrow> (c, n) \<in> set (commit_stores cs ca cc)
     \<Longrightarrow> c \<in> set cs \<and> n \<in> name ` set cc"
proof (induction cs ca cc s rule: record_clone_assign_to_dict.induct)
  case (4 c cs j ca clean_clades s)
  then show ?case
    by (auto split: sum.splits dest!: list_item_Inr)
qed auto

lemma new_expr_cells_Inr:
  "length cs \<le> length ca \<Longrightarrow> new_expr_cells cs ca i = Inr (child_cells cs ca i)"
proof (induction cs ca i rule: new_expr_cells.induct)
  case (3 c cs a ca i)
  then show ?case by (auto simp: child_cells_def)
qed (auto simp: child_cells_def)

lemma new_expr_cells_length:
  "new_expr_cells cs ca i = Inr xs \<Longrightarrow> length cs \<le> length ca"
  by (induction cs ca i arbitrary: xs rule: new_expr_cells.induct) (auto split: sum.splits)

lemma new_expr_cells_Inr_iff:
  "new_expr_cells cs ca i = Inr xs \<longleftrightarrow> length cs \<le> length ca \<and> xs = child_cells cs ca i"
  using new_expr_cells_length [of cs ca i xs] new_expr_cells_Inr [of cs ca i] by auto

lemma record_output_fields:
  "record_output self X r s = Inr s' \<Longrightarrow>
     clone_assign_dict s' = clone_assign_dict s \<and> pruned_clades s' = pruned_clades s
     \<and> gene_type_score_dict s' = gene_type_score_dict s
     \<and> allele_assign_prob_dict s' = allele_assign_prob_dict s"
  by (auto simp: record_output_def split: if_splits option.splits)

lemma record_gene_type_score_fields:
  "record_gene_type_score self inp ht r s = Inr s' \<Longrightarrow>
     clone_assign_dict s' = clone_assign_dict s \<and> pruned_clades s' = pruned_clades s
     \<and> allele_assign_prob_dict s' = allele_assign_prob_dict s \<and> params_dict s' = params_dict s"
  by (auto simp: record_gene_type_score_def split: if_splits option.splits sum.splits)

lemma record_allele_assign_prob_fields:
  "record_allele_assign_prob self inp ha r s = Inr s' \<Longrightarrow>
     clone_assign_dict s' = clone_assign_dict s \<and> pruned_clades s' = pruned_clades s
     \<and> gene_type_score_dict s' = gene_type_score_dict s \<and> params_dict s' = params_dict s"
  by (auto simp: record_allele_assign_prob_def split: if_splits option.splits sum.splits)

lemma record_results_fields:
  assumes "record_results fl self cs cc inp ht ha r s = Inr s'"
  shows "pruned_clades s' = pruned_clades s \<and> params_dict s' = params_dict s
     \<and> (if float_ge fl (float_one_minus fl (none_freq r)) (min_record_freq self)
         then clone_assign_dict s' = rev (commit_stores cs (clone_assign r) cc) @ clone_assign_dict s
              \<and> length cs \<le> length (clone_assign r)
              \<and> (\<exists>sc. record_clone_assign_to_dict cs (clone_assign r) cc s = Inr sc)
         else s' = s)"
  using assms
  by (auto simp: record_results_def split: if_splits sum.splits
        dest!: record_clone_assign_to_dict_Inr record_gene_type_score_fields
          record_allele_assign_prob_fields)

lemma record_and_decide_Inr:
  assumes "record_and_decide fl self X cs cc inp ht ha r s = Inr d"
  shows "(d = Proceed (decided_state d) \<longleftrightarrow>
            float_ge fl (float_one_minus fl (none_freq r)) (min_record_freq self)
     \<and> float_ge fl (float_one_minus fl (none_freq r)) (min_proceed_freq self))
     \<and> (d = Stop (decided_state d) \<longleftrightarrow>
            \<not> (float_ge fl (float_one_minus fl (none_freq r)) (min_record_freq self)
             \<and> float_ge fl (float_one_minus fl (none_freq r)) (min_proceed_freq self)))
     \<and> pruned_clades (decided_state d)
          = (if float_ge fl (float_one_minus fl (none_freq r)) (min_record_freq self)
         \<and> float_ge fl (float_one_minus fl (none_freq r)) (min_proceed_freq self)
             then pruned_clades s else pruned_clades s \<union> name ` set cc)
     \<and> clone_assign_dict (decided_state d)
          = (if float_ge fl (float_one_minus fl (none_freq r)) (min_record_freq self)
             then rev (commit_stores cs (clone_assign r) cc) else []) @ clone_assign_dict s
     \<and> (float_ge fl (float_one_minus fl (none_freq r)) (min_record_freq self) \<longrightarrow> length cs \<le> length (clone_assign r))"
  using assms
  by (auto simp: record_and_decide_def split: sum.splits if_splits
        dest!: record_output_fields record_results_fields)

lemma visit_guards_Return:
  assumes "visit_guards self pb X cs level s = Return s'"
  shows "clone_assign_dict s' = clone_assign_dict s \<and> pruned_clades s \<subseteq> pruned_clades s'
     \<and> gene_type_score_dict s' = gene_type_score_dict s
     \<and> allele_assign_prob_dict s' = allele_assign_prob_dict s
     \<and> params_dict s' = params_dict s"
  using assms
  by (auto simp: visit_guards_def scan_clades_self pruned_clades_add_def Let_def
        split: if_splits prod.splits)

lemma visit_guards_OneChild:
  assumes "visit_guards self pb X cs level s = OneChild s' ch"
  shows "clean_clades_of self X = [ch] \<and> level \<le> level_cutoff self
     \<and> clone_assign_dict s' = rev (map (\<lambda>c. (c, name ch)) cs) @ clone_assign_dict s
     \<and> pruned_clades s' = pruned_clades s \<union> name ` set (small_clades_of self X)
     \<and> gene_type_score_dict s' = gene_type_score_dict s
     \<and> allele_assign_prob_dict s' = allele_assign_prob_dict s
     \<and> params_dict s' = params_dict s"
proof -
  have "length (clean_clades_of self X) = 1 \<Longrightarrow> clean_clades_of self X = [clean_clades_of self X ! 0]"
    by (cases "clean_clades_of self X") auto
  with assms show ?thesis
    by (auto simp: visit_guards_def scan_clades_self Let_def split: if_splits prod.splits)
qed

lemma visit_guards_RunCloneAlign:
  assumes "visit_guards self pb X cs level s = RunCloneAlign s' cc inp ht ha"
  shows "cc = clean_clades_of self X \<and> 2 \<le> length cc \<and> level \<le> level_cutoff self
     \<and> clone_assign_dict s' = clone_assign_dict s
     \<and> pruned_clades s' = pruned_clades s \<union> name ` set (small_clades_of self X)
     \<and> gene_type_score_dict s' = gene_type_score_dict s
     \<and> allele_assign_prob_dict s' = allele_assign_prob_dict s"
proof -
  have "length (clean_clades_of self X) \<noteq> 1 \<Longrightarrow> clean_clades_of self X \<noteq> []
          \<Longrightarrow> 2 \<le> length (clean_clades_of self X)"
    by (cases "clean_clades_of self X") (auto simp: Suc_le_eq)
  with assms show ?thesis
    by (auto simp: visit_guards_def scan_clades_self Let_def split: if_splits prod.splits)
qed

lemma proceed_loop_fold_result:
  assumes "length cs \<le> length ca"
  shows "proceed_loop fl self pb run cls i cs ca level s
     = fold_result
         (\<lambda>(k, cl). assign_cells_to_clade fl self pb run cl (child_cells cs ca k) (level + 1))
         (zip (map (\<lambda>n. i + int n) [0..<length cls]) cls) s"
  using assms
proof (induction cls arbitrary: i s)
  case Nil
  then show ?case by simp
next
  case (Cons cl cls)
  have shift: "map (\<lambda>n. i + int n) [0..<Suc (length cls)]
                 = i # map (\<lambda>n. (i + 1) + int n) [0..<length cls]"
    by (simp add: upt_rec [of 0] map_Suc_upt [symmetric] del: upt_Suc) 
  show ?case
    using Cons.prems
    by (simp add: new_expr_cells_Inr shift Cons.IH del: upt_Suc split: sum.splits)
qed

lemma record_clone_assign_to_dict_any_state:
  "record_clone_assign_to_dict cs ca cc s = Inr s' \<Longrightarrow>
     record_clone_assign_to_dict cs ca cc t
       = Inr (t\<lparr>clone_assign_dict := rev (commit_stores cs ca cc) @ clone_assign_dict t\<rparr>)"
proof (induction cs ca cc s arbitrary: t rule: record_clone_assign_to_dict.induct)
  case (4 c cs j ca clean_clades s)
  then show ?case
    by (auto simp: clone_assign_store_def split: sum.splits dest!: list_item_Inr)
qed auto

lemmas visit_defs = visit_guards_def clean_clades_of_def small_clades_of_def terminals_of_def
  pruned_clades_add_def clone_assign_store_def record_and_decide_def record_output_def
  record_results_def record_gene_type_score_def record_allele_assign_prob_def
  record_param_to_dict_def list_item_def child_cells_def

lemma ex_visit_guards:
  "visit_guards ex_self ex_pb ex_tree ex_cells 0 ex_s0
     = RunCloneAlign ex_s1 [ex_A, ex_B] ex_inputs True False"
  by (simp add: visit_defs ex_defs)

lemma ex_visit_guards_no_s:
  "visit_guards (ex_self\<lparr>infer_s_score := False\<rparr>) ex_pb ex_tree ex_cells 0 ex_s0
     = RunCloneAlign ex_s1 [ex_A, ex_B] ex_inputs True False"
  by (simp add: visit_defs ex_defs)

lemma ex_record_and_decide:
  "record_and_decide ex_float ex_self ex_tree ex_cells [ex_A, ex_B] ex_inputs True False ex_result ex_s1
     = Inr (Proceed ex_s2)"
  by (simp add: visit_defs ex_defs)

lemma ex_full_run: "assign_cells_to_tree ex_float ex_self ex_pb ex_run ex_state = Inr ex_final"
  by (simp add: assign_cells_to_tree_def input_cells_def record_clone_assign_to_default_def
        assign_cells_to_clade.simps visit_defs ex_defs insert_commute)

lemma child_cells_subset: "set (child_cells cs ca i) \<subseteq> set cs"
  by (auto simp: child_cells_def dest: set_zip_leftD)

lemma child_cells_zip: "c \<in> set (child_cells cs ca i) \<Longrightarrow> (c, Some i) \<in> set (zip cs ca)"
  by (auto simp: child_cells_def)

lemma commit_stores_zip:
  "fst ` set (commit_stores cs ca cc) \<subseteq> {c. \<exists>j. (c, Some j) \<in> set (zip cs ca)}"
  by (induction cs ca cc rule: commit_stores.induct) auto

lemma commit_stores_fst: "fst ` set (commit_stores cs ca cc) \<subseteq> set cs"
  using commit_stores_zip [of cs ca cc] by (auto dest: set_zip_leftD)

lemma visit_stores:
  shows "assign_cells_to_clade fl self pb run X cs level s = Inr s' \<Longrightarrow>
           \<exists>W. clone_assign_dict s' = W @ clone_assign_dict s \<and> fst ` set W \<subseteq> set cs"
    and "proceed_loop fl self pb run cls i cs ca level s = Inr s' \<Longrightarrow>
           \<exists>W. clone_assign_dict s' = W @ clone_assign_dict s
             \<and> fst ` set W \<subseteq> {c. \<exists>j. (c, Some j) \<in> set (zip cs ca)}"
proof (induction fl self pb run X cs level s and fl self pb run cls i cs ca level s
    arbitrary: s' and s' rule: assign_cells_to_clade_proceed_loop.induct)
  case (1 fl self pb run X cs level s)
  show ?case
  proof (cases "visit_guards self pb X cs level s")
    case (Return s1)
    with "1.prems" have "s' = s1" by (simp add: assign_cells_to_clade.simps)
    with visit_guards_Return [OF Return] show ?thesis by simp
  next
    case (OneChild s1 ch)
    with "1.prems" have "assign_cells_to_clade fl self pb run ch cs (level + 1) s1 = Inr s'"
      by (simp add: assign_cells_to_clade.simps)
    from "1.IH"(1) [OF OneChild this] obtain W where
      W: "clone_assign_dict s' = W @ clone_assign_dict s1" "fst ` set W \<subseteq> set cs" by blast
    have "clone_assign_dict s1 = rev (map (\<lambda>c. (c, name ch)) cs) @ clone_assign_dict s"
      using visit_guards_OneChild [OF OneChild] by simp
    with W show ?thesis
      by (intro exI [of _ "W @ rev (map (\<lambda>c. (c, name ch)) cs)"]) auto
  next
    case (RunCloneAlign s1 cc inp ht ha)
    note g = visit_guards_RunCloneAlign [OF RunCloneAlign]
    from "1.prems" RunCloneAlign obtain r d where
      r: "run (cnv inp) (expr inp) (hscn inp) (snv_allele inp) (snv inp) = Some r"
      and d: "record_and_decide fl self X cs cc inp ht ha r s1 = Inr d"
      by (auto simp: assign_cells_to_clade.simps split: option.splits sum.splits)
    note dd = record_and_decide_Inr [OF d]
    let ?C = "if float_ge fl (float_one_minus fl (none_freq r)) (min_record_freq self)
              then rev (commit_stores cs (clone_assign r) cc) else []"
    have C: "clone_assign_dict (decided_state d) = ?C @ clone_assign_dict s"
      "fst ` set ?C \<subseteq> set cs"
      using dd g commit_stores_fst [of cs "clone_assign r" cc] by auto
    show ?thesis
    proof (cases d)
      case (Stop s2)
      with "1.prems" RunCloneAlign r d have "s' = s2"
        by (simp add: assign_cells_to_clade.simps)
      with Stop C show ?thesis by auto
    next
      case (Proceed s2)
      with "1.prems" RunCloneAlign r d
      have "proceed_loop fl self pb run cc 0 cs (clone_assign r) level s2 = Inr s'"
        by (simp add: assign_cells_to_clade.simps)
      from "1.IH"(2) [OF RunCloneAlign r d Proceed this] obtain W where
        W: "clone_assign_dict s' = W @ clone_assign_dict s2" "fst ` set W \<subseteq> set cs"
        by (blast dest: set_zip_leftD)
      with Proceed C show ?thesis
        by (intro exI [of _ "W @ ?C"]) auto
    qed
  qed
next
  case (2 fl self pb run i cs ca level s)
  then show ?case by simp
next
  case (3 fl self pb run cl cls i cs ca level s)
  from "3.prems" obtain s1 where
    n: "new_expr_cells cs ca i = Inr (child_cells cs ca i)"
    and a: "assign_cells_to_clade fl self pb run cl (child_cells cs ca i) (level + 1) s = Inr s1"
    and p: "proceed_loop fl self pb run cls (i + 1) cs ca level s1 = Inr s'"
    by (auto simp: new_expr_cells_Inr_iff split: sum.splits)
  from "3.IH"(1) [OF n a] obtain W1 where
    W1: "clone_assign_dict s1 = W1 @ clone_assign_dict s"
      "fst ` set W1 \<subseteq> set (child_cells cs ca i)" by blast
  from "3.IH"(2) [OF n a p] obtain W2 where
    W2: "clone_assign_dict s' = W2 @ clone_assign_dict s1"
      "fst ` set W2 \<subseteq> {c. \<exists>j. (c, Some j) \<in> set (zip cs ca)}" by blast
  from W1 W2 show ?case
    by (intro exI [of _ "W2 @ W1"]) (auto dest: child_cells_zip)
qed

lemma map_of_append_notin:
  "c \<notin> fst ` set W \<Longrightarrow> map_of (W @ d) c = map_of d c"
  by (simp add: map_add_def map_of_eq_None_iff [THEN iffD2])

lemma dom_map_of_append: "dom (map_of d) \<subseteq> dom (map_of (W @ d))"
  by auto

lemma ex_input_cells: "input_cells ex_self = Inr ex_cells"
  by (simp add: input_cells_def ex_defs)

lemma ex_run_returns:
  "ex_run (cnv ex_inputs) (expr ex_inputs) (hscn ex_inputs) (snv_allele ex_inputs)
     (snv ex_inputs) = Some ex_result"
  by (simp add: ex_run_def)

lemma within_enough:
  shows "nat (level_cutoff self + 1 - level) \<le> d \<Longrightarrow>
           assign_cells_to_clade_within fl d self pb run X cs level s
             = Some (assign_cells_to_clade fl self pb run X cs level s)"
    and "nat (level_cutoff self - level) \<le> d \<Longrightarrow>
           proceed_loop_within fl d self pb run cls i cs ca level s
             = Some (proceed_loop fl self pb run cls i cs ca level s)"
proof (induction fl self pb run X cs level s and fl self pb run cls i cs ca level s
    arbitrary: d and d rule: assign_cells_to_clade_proceed_loop.induct)
  case (1 fl self pb run X cs level s)
  show ?case
  proof (cases "visit_guards self pb X cs level s")
    case (Return s1)
    then show ?thesis
      by (simp add: assign_cells_to_clade.simps assign_cells_to_clade_within.simps)
  next
    case (OneChild s1 ch)
    from visit_guards_OneChild_level [OF OneChild] "1.prems"
    obtain d' where d: "d = Suc d'" and d': "nat (level_cutoff self + 1 - (level + 1)) \<le> d'"
      by (cases d) auto
    from "1.IH"(1) [OF OneChild d'] OneChild d show ?thesis
      by (simp add: assign_cells_to_clade.simps [of _ _ _ _ X]
            assign_cells_to_clade_within.simps [of _ _ _ _ _ X])
  next
    case (RunCloneAlign s1 cc inp ht ha)
    from visit_guards_Run_level [OF RunCloneAlign] "1.prems"
    obtain d' where d: "d = Suc d'" and d': "nat (level_cutoff self - level) \<le> d'"
      by (cases d) auto
    show ?thesis
    proof (cases "run (cnv inp) (expr inp) (hscn inp) (snv_allele inp) (snv inp)")
      case None
      with RunCloneAlign show ?thesis
        by (simp add: assign_cells_to_clade.simps assign_cells_to_clade_within.simps)
    next
      case (Some r)
      show ?thesis
      proof (cases "record_and_decide fl self X cs cc inp ht ha r s1")
        case (Inl e)
        with RunCloneAlign Some show ?thesis
          by (simp add: assign_cells_to_clade.simps assign_cells_to_clade_within.simps)
      next
        case (Inr dec)
        show ?thesis
        proof (cases dec)
          case (Stop s2)
          with RunCloneAlign Some Inr show ?thesis
            by (simp add: assign_cells_to_clade.simps assign_cells_to_clade_within.simps)
        next
          case (Proceed s2)
          from "1.IH"(2) [OF RunCloneAlign Some Inr Proceed d'] RunCloneAlign Some Inr Proceed d
          show ?thesis
            by (simp add: assign_cells_to_clade.simps [of _ _ _ _ X]
                  assign_cells_to_clade_within.simps [of _ _ _ _ _ X])
        qed
      qed
    qed
  qed
next
  case (2 fl self pb run i cs ca level s)
  then show ?case by simp
next
  case (3 fl self pb run cl cls i cs ca level s)
  show ?case
  proof (cases "new_expr_cells cs ca i")
    case (Inl e)
    then show ?thesis by simp
  next
    case (Inr b)
    have d1: "nat (level_cutoff self + 1 - (level + 1)) \<le> d"
      using "3.prems" by simp
    note a = "3.IH"(1) [OF Inr d1]
    show ?thesis
    proof (cases "assign_cells_to_clade fl self pb run cl b (level + 1) s")
      case (Inl e)
      with Inr a show ?thesis by simp
    next
      case (Inr s1)
      from "3.IH"(2) [OF \<open>new_expr_cells cs ca i = Inr b\<close> Inr "3.prems"] a Inr
        \<open>new_expr_cells cs ca i = Inr b\<close>
      show ?thesis by simp
    qed
  qed
qed

lemma values_of_append: "values_of c (W2 @ W1) = values_of c W1 @ values_of c W2"
  by (simp add: values_of_def)

lemma values_of_Nil [simp]: "values_of c [] = []"
  by (simp add: values_of_def)

lemma values_of_rev: "values_of c (rev W) = map snd (filter (\<lambda>p. fst p = c) W)"
  by (simp add: values_of_def rev_filter [symmetric] rev_map [symmetric])

lemma values_of_notin: "c \<notin> fst ` set W \<Longrightarrow> values_of c W = []"
  by (induction W) (auto simp: values_of_def)

lemma values_of_const:
  "distinct cs \<Longrightarrow> values_of c (rev (map (\<lambda>c. (c, n)) cs)) = (if c \<in> set cs then [n] else [])"
  by (induction cs) (auto simp: values_of_def)

lemma zip_unique:
  "distinct cs \<Longrightarrow> (c, a) \<in> set (zip cs ca) \<Longrightarrow> (c, b) \<in> set (zip cs ca) \<Longrightarrow> a = b"
proof (induction cs arbitrary: ca)
  case Nil
  then show ?case by simp
next
  case (Cons x cs)
  then show ?case by (cases ca) (auto dest: set_zip_leftD)
qed

lemma zip_covers:
  "c \<in> set cs \<Longrightarrow> length cs \<le> length ca \<Longrightarrow> \<exists>a. (c, a) \<in> set (zip cs ca)"
proof (induction cs arbitrary: ca)
  case Nil
  then show ?case by simp
next
  case (Cons x cs)
  then show ?case by (cases ca) auto
qed

lemma child_cells_iff: "c \<in> set (child_cells cs ca i) \<longleftrightarrow> (c, Some i) \<in> set (zip cs ca)"
  by (force simp: child_cells_def)

lemma distinct_child_cells: "distinct cs \<Longrightarrow> distinct (child_cells cs ca i)"
proof -
  assume "distinct cs"
  then have "distinct (map fst (zip cs ca))"
    by (simp add: map_fst_zip_take distinct_take)
  then show ?thesis
    unfolding child_cells_def by (rule distinct_map_filter)
qed

lemma commit_in_range:
  "record_clone_assign_to_dict cs ca cc s = Inr s' \<Longrightarrow> (c, Some j) \<in> set (zip cs ca)
     \<Longrightarrow> - int (length cc) \<le> j \<and> j < int (length cc)"
proof (induction cs ca cc s rule: record_clone_assign_to_dict.induct)
  case (4 c' cs j' ca clean_clades s)
  then show ?case
    by (auto split: sum.splits dest!: list_item_Inr)
qed auto

lemma values_of_commit:
  "distinct cs \<Longrightarrow> (c, Some j) \<in> set (zip cs ca) \<Longrightarrow>
     values_of c (rev (commit_stores cs ca cc))
       = [name (cc ! nat (if j < 0 then int (length cc) + j else j))]"
  unfolding values_of_rev
proof (induction cs ca cc rule: commit_stores.induct)
  case (1 c' cs j' ca cc)
  show ?case
  proof (cases "c = c'")
    case True
    with "1.prems" have j: "j = j'" and "c \<notin> set cs" by (auto dest: set_zip_leftD)
    then have "c \<notin> fst ` set (commit_stores cs ca cc)"
      using commit_stores_fst [of cs ca cc] by auto
    then have "filter (\<lambda>p. fst p = c) (commit_stores cs ca cc) = []"
      by (auto simp: filter_empty_conv)
    with True j show ?thesis by simp
  next
    case False
    with "1.prems" "1.IH" show ?thesis by auto
  qed
next
  case (2 c' cs ca cc)
  then show ?case by (auto dest: set_zip_leftD)
qed auto

lemma record_and_decide_commit:
  assumes "record_and_decide fl self X cs cc inp ht ha r s = Inr d"
    and "float_ge fl (float_one_minus fl (none_freq r)) (min_record_freq self)"
  shows "\<exists>s1 sc. record_output self X r s = Inr s1
           \<and> record_clone_assign_to_dict cs (clone_assign r) cc s1 = Inr sc"
proof -
  from assms obtain s1 s2 where "record_output self X r s = Inr s1"
    "record_results fl self cs cc inp ht ha r s1 = Inr s2"
    by (auto simp: record_and_decide_def split: sum.splits)
  with record_results_fields [OF this(2)] assms(2) show ?thesis by auto
qed

lemma clean_clades_children: "set (clean_clades_of self X) \<subseteq> set (clades X)"
  by (auto simp: clean_clades_of_def)

lemma visit_paths:
  shows "distinct cs \<Longrightarrow> assign_cells_to_clade fl self pb run X cs level s = Inr s' \<Longrightarrow>
           \<exists>W. clone_assign_dict s' = W @ clone_assign_dict s
             \<and> (\<forall>c \<in> set cs. \<exists>p. is_path (X # p) \<and> values_of c W = map name p)
             \<and> (\<forall>c. c \<notin> set cs \<longrightarrow> values_of c W = [])"
    and "distinct cs \<Longrightarrow> proceed_loop fl self pb run cls i cs ca level s = Inr s' \<Longrightarrow>
           \<exists>W. clone_assign_dict s' = W @ clone_assign_dict s
             \<and> (\<forall>c m. m < length cls \<longrightarrow> (c, Some (i + int m)) \<in> set (zip cs ca)
                    \<longrightarrow> (\<exists>p. is_path (cls ! m # p) \<and> values_of c W = map name p))
             \<and> (\<forall>c. (\<forall>m < length cls. (c, Some (i + int m)) \<notin> set (zip cs ca))
                    \<longrightarrow> values_of c W = [])"
proof (induction fl self pb run X cs level s and fl self pb run cls i cs ca level s
    arbitrary: s' and s' rule: assign_cells_to_clade_proceed_loop.induct)
  case (1 fl self pb run X cs level s)
  note dist = \<open>distinct cs\<close>
  note run = \<open>assign_cells_to_clade fl self pb run X cs level s = Inr s'\<close>
  show ?case
  proof (cases "visit_guards self pb X cs level s")
    case (Return s1)
    with run have "s' = s1" by (simp add: assign_cells_to_clade.simps)
    with visit_guards_Return [OF Return] have "clone_assign_dict s' = [] @ clone_assign_dict s"
      by simp
    moreover have "\<forall>c \<in> set cs. \<exists>p. is_path (X # p) \<and> values_of c [] = map name p"
      by (intro ballI exI [of _ "[]"]) simp
    ultimately show ?thesis by (intro exI [of _ "[]"]) simp
  next
    case (OneChild s1 ch)
    note g = visit_guards_OneChild [OF OneChild]
    from run OneChild have "assign_cells_to_clade fl self pb run ch cs (level + 1) s1 = Inr s'"
      by (simp add: assign_cells_to_clade.simps)
    from "1.IH"(1) [OF OneChild dist this] obtain W where
      W: "clone_assign_dict s' = W @ clone_assign_dict s1"
        "\<forall>c \<in> set cs. \<exists>p. is_path (ch # p) \<and> values_of c W = map name p"
        "\<forall>c. c \<notin> set cs \<longrightarrow> values_of c W = []"
      by blast
    let ?B = "rev (map (\<lambda>c. (c, name ch)) cs)"
    have ch: "ch \<in> set (clades X)"
      using g clean_clades_children [of self X] by auto
    have "clone_assign_dict s' = (W @ ?B) @ clone_assign_dict s"
      using W(1) g by simp
    moreover have "\<exists>p. is_path (X # p) \<and> values_of c (W @ ?B) = map name p" if "c \<in> set cs" for c
    proof -
      from W(2) that obtain p where p: "is_path (ch # p)" "values_of c W = map name p" by blast
      have "is_path (X # ch # p)" using ch p(1) by simp
      moreover have "values_of c (W @ ?B) = map name (ch # p)"
        using that p(2) by (simp add: values_of_append values_of_const [OF dist])
      ultimately show ?thesis by blast
    qed
    moreover have "values_of c (W @ ?B) = []" if "c \<notin> set cs" for c
      using that W(3) by (simp add: values_of_append values_of_const [OF dist])
    ultimately show ?thesis by blast
  next
    case (RunCloneAlign s1 cc inp ht ha)
    note g = visit_guards_RunCloneAlign [OF RunCloneAlign]
    from run RunCloneAlign obtain r d where
      r: "run (cnv inp) (expr inp) (hscn inp) (snv_allele inp) (snv inp) = Some r"
      and d: "record_and_decide fl self X cs cc inp ht ha r s1 = Inr d"
      by (auto simp: assign_cells_to_clade.simps split: option.splits sum.splits)
    note dd = record_and_decide_Inr [OF d]
    let ?ca = "clone_assign r"
    have cc: "set cc \<subseteq> set (clades X)"
      using g clean_clades_children [of self X] by simp
    show ?thesis
    proof (cases "float_ge fl (float_one_minus fl (none_freq r)) (min_record_freq self)")
      case False
      with dd have st: "d = Stop (decided_state d)"
        and cad: "clone_assign_dict (decided_state d) = clone_assign_dict s1" by auto
      from run RunCloneAlign r d st have "s' = decided_state d"
        by (cases d) (simp_all add: assign_cells_to_clade.simps)
      with cad g have "clone_assign_dict s' = [] @ clone_assign_dict s" by simp
      moreover have "\<forall>c \<in> set cs. \<exists>p. is_path (X # p) \<and> values_of c [] = map name p"
        by (intro ballI exI [of _ "[]"]) simp
      ultimately show ?thesis by (intro exI [of _ "[]"]) simp
    next
      case True
      let ?C = "rev (commit_stores cs ?ca cc)"
      from dd True g have cad: "clone_assign_dict (decided_state d) = ?C @ clone_assign_dict s"
        and len: "length cs \<le> length ?ca" by auto
      from record_and_decide_commit [OF d True] obtain t sc where
        "record_output self X r s1 = Inr t"
        and com: "record_clone_assign_to_dict cs ?ca cc t = Inr sc" by blast
      \<comment> \<open>the stores of the commit, cell by cell\<close>
      have C_some: "values_of c ?C = [name (cc ! nat (if j < 0 then int (length cc) + j else j))]
          \<and> cc ! nat (if j < 0 then int (length cc) + j else j) \<in> set cc"
        if "(c, Some j) \<in> set (zip cs ?ca)" for c j
        using values_of_commit [OF dist that] commit_in_range [OF com that] by auto
      have C_none: "values_of c ?C = []" if "\<forall>j. (c, Some j) \<notin> set (zip cs ?ca)" for c
        using that commit_stores_zip [of cs ?ca cc] by (intro values_of_notin) auto
      \<comment> \<open>the stores of the recursive visits\<close>
      obtain W where
        W: "clone_assign_dict s' = W @ clone_assign_dict (decided_state d)"
          "\<forall>c m. m < length cc \<longrightarrow> (c, Some (int m)) \<in> set (zip cs ?ca)
              \<longrightarrow> (\<exists>p. is_path (cc ! m # p) \<and> values_of c W = map name p)"
          "\<forall>c. (\<forall>j. (c, Some j) \<notin> set (zip cs ?ca)) \<longrightarrow> values_of c W = []"
          "\<forall>c j. (c, Some j) \<in> set (zip cs ?ca) \<longrightarrow> j < 0 \<longrightarrow> values_of c W = []"
      proof (cases d)
        case (Stop s2)
        with run RunCloneAlign r d have "s' = s2" by (simp add: assign_cells_to_clade.simps)
        moreover from Stop dd have "\<not> float_ge fl (float_one_minus fl (none_freq r)) (min_proceed_freq self)"
          using True by auto
        ultimately have "clone_assign_dict s' = [] @ clone_assign_dict (decided_state d)"
          using Stop by simp
        moreover have "\<forall>c m. m < length cc \<longrightarrow> (c, Some (int m)) \<in> set (zip cs ?ca)
              \<longrightarrow> (\<exists>p. is_path (cc ! m # p) \<and> values_of c [] = map name p)"
          by (intro allI impI exI [of _ "[]"]) simp
        ultimately show ?thesis by (intro that [of "[]"]) simp_all
      next
        case (Proceed s2)
        with run RunCloneAlign r d
        have "proceed_loop fl self pb run cc 0 cs ?ca level s2 = Inr s'"
          by (simp add: assign_cells_to_clade.simps)
        from "1.IH"(2) [OF RunCloneAlign r d Proceed dist this] obtain W where
          W: "clone_assign_dict s' = W @ clone_assign_dict s2"
            "\<forall>c m. m < length cc \<longrightarrow> (c, Some (0 + int m)) \<in> set (zip cs ?ca)
                \<longrightarrow> (\<exists>p. is_path (cc ! m # p) \<and> values_of c W = map name p)"
            "\<forall>c. (\<forall>m < length cc. (c, Some (0 + int m)) \<notin> set (zip cs ?ca))
                \<longrightarrow> values_of c W = []"
          by blast
        have "values_of c W = []" if "(c, Some j) \<in> set (zip cs ?ca)" "j < 0" for c j
        proof -
          have "(c, Some (0 + int m)) \<notin> set (zip cs ?ca)" for m
            using zip_unique [OF dist that(1), of "Some (0 + int m)"] that(2) by auto
          with W(3) show ?thesis by blast
        qed
        with W Proceed show ?thesis by (intro that [of W]) auto
      qed
      have "clone_assign_dict s' = (W @ ?C) @ clone_assign_dict s"
        using W(1) cad by simp
      moreover have "\<exists>p. is_path (X # p) \<and> values_of c (W @ ?C) = map name p"
        if "c \<in> set cs" for c
      proof -
        from zip_covers [OF that len] obtain a where a: "(c, a) \<in> set (zip cs ?ca)" by blast
        show ?thesis
        proof (cases a)
          case None
          have "\<forall>j. (c, Some j) \<notin> set (zip cs ?ca)"
            using zip_unique [OF dist a] None by auto
          with C_none W(3) have "values_of c (W @ ?C) = map name []"
            by (simp add: values_of_append)
          then show ?thesis by (intro exI [of _ "[]"]) simp
        next
          case (Some j)
          let ?k = "nat (if j < 0 then int (length cc) + j else j)"
          from C_some [of c j] a Some have k: "values_of c ?C = [name (cc ! ?k)]"
            "cc ! ?k \<in> set cc" by auto
          show ?thesis
          proof (cases "j < 0")
            case True
            with W(4) a Some have "values_of c W = []" by blast
            with k have "values_of c (W @ ?C) = map name [cc ! ?k]"
              by (simp add: values_of_append)
            moreover have "is_path (X # [cc ! ?k])" using k(2) cc by auto
            ultimately show ?thesis by blast
          next
            case False
            from commit_in_range [OF com] a Some have "j < int (length cc)" by blast
            with False have m: "nat j < length cc" "int (nat j) = j" by auto
            with W(2) a Some obtain p where
              p: "is_path (cc ! nat j # p)" "values_of c W = map name p" by metis
            from k False p have "values_of c (W @ ?C) = map name (cc ! nat j # p)"
              by (simp add: values_of_append)
            moreover have "is_path (X # cc ! nat j # p)" using k(2) cc p(1) False by auto
            ultimately show ?thesis by blast
          qed
        qed
      qed
      moreover have "values_of c (W @ ?C) = []" if "c \<notin> set cs" for c
      proof -
        have "\<forall>j. (c, Some j) \<notin> set (zip cs ?ca)"
          using that by (auto dest: set_zip_leftD)
        with C_none W(3) show ?thesis by (simp add: values_of_append)
      qed
      ultimately show ?thesis by blast
    qed
  qed
next
  case (2 fl self pb run i cs ca level s)
  then show ?case by (intro exI [of _ "[]"]) simp
next
  case (3 fl self pb run cl cls i cs ca level s)
  note dist = \<open>distinct cs\<close>
  from \<open>proceed_loop fl self pb run (cl # cls) i cs ca level s = Inr s'\<close> obtain s1 where
    n: "new_expr_cells cs ca i = Inr (child_cells cs ca i)"
    and a: "assign_cells_to_clade fl self pb run cl (child_cells cs ca i) (level + 1) s = Inr s1"
    and p: "proceed_loop fl self pb run cls (i + 1) cs ca level s1 = Inr s'"
    by (auto simp: new_expr_cells_Inr_iff split: sum.splits)
  from "3.IH"(1) [OF n distinct_child_cells [OF dist] a] obtain W1 where
    W1: "clone_assign_dict s1 = W1 @ clone_assign_dict s"
      "\<forall>c \<in> set (child_cells cs ca i). \<exists>p. is_path (cl # p) \<and> values_of c W1 = map name p"
      "\<forall>c. c \<notin> set (child_cells cs ca i) \<longrightarrow> values_of c W1 = []"
    by blast
  from "3.IH"(2) [OF n a dist p] obtain W2 where
    W2: "clone_assign_dict s' = W2 @ clone_assign_dict s1"
      "\<forall>c m. m < length cls \<longrightarrow> (c, Some (i + 1 + int m)) \<in> set (zip cs ca)
          \<longrightarrow> (\<exists>p. is_path (cls ! m # p) \<and> values_of c W2 = map name p)"
      "\<forall>c. (\<forall>m < length cls. (c, Some (i + 1 + int m)) \<notin> set (zip cs ca))
          \<longrightarrow> values_of c W2 = []"
    by blast
  have "clone_assign_dict s' = (W2 @ W1) @ clone_assign_dict s"
    using W1(1) W2(1) by simp
  moreover have "\<exists>p. is_path ((cl # cls) ! m # p) \<and> values_of c (W2 @ W1) = map name p"
    if m: "m < length (cl # cls)" and z: "(c, Some (i + int m)) \<in> set (zip cs ca)" for c m
  proof (cases m)
    case 0
    with z have "c \<in> set (child_cells cs ca i)" by (simp add: child_cells_iff)
    with W1(2) obtain p where p: "is_path (cl # p)" "values_of c W1 = map name p" by blast
    have "(c, Some (i + 1 + int m')) \<notin> set (zip cs ca)" for m'
      using zip_unique [OF dist z, of "Some (i + 1 + int m')"] 0 by auto
    with W2(3) have "values_of c W2 = []" by blast
    with p 0 show ?thesis by (intro exI [of _ p]) (simp add: values_of_append)
  next
    case (Suc m')
    with z have z': "(c, Some (i + 1 + int m')) \<in> set (zip cs ca)" by (simp add: add.assoc)
    from Suc m have "m' < length cls" by simp
    with W2(2) z' obtain p where p: "is_path (cls ! m' # p)" "values_of c W2 = map name p"
      by blast
    have "(c, Some i) \<notin> set (zip cs ca)"
      using zip_unique [OF dist z', of "Some i"] by auto
    then have "c \<notin> set (child_cells cs ca i)" by (simp add: child_cells_iff)
    with W1(3) have "values_of c W1 = []" by blast
    with p Suc show ?thesis by (intro exI [of _ p]) (simp add: values_of_append)
  qed
  moreover have "values_of c (W2 @ W1) = []"
    if "\<forall>m < length (cl # cls). (c, Some (i + int m)) \<notin> set (zip cs ca)" for c
  proof -
    from that [rule_format, of 0] have "c \<notin> set (child_cells cs ca i)"
      by (simp add: child_cells_iff)
    with W1(3) have "values_of c W1 = []" by blast
    moreover have "(c, Some (i + 1 + int m)) \<notin> set (zip cs ca)" if "m < length cls" for m
      using \<open>\<forall>m < length (cl # cls). (c, Some (i + int m)) \<notin> set (zip cs ca)\<close>
        [rule_format, of "Suc m"] that by (simp add: add.assoc)
    with W2(3) have "values_of c W2 = []" by blast
    ultimately show ?thesis by (simp add: values_of_append)
  qed
  ultimately show ?case by blast
qed

lemma ex_second_run: "assign_cells_to_tree ex_float ex_self ex_pb ex_run ex_final = Inr ex_final2"
  by (simp add: assign_cells_to_tree_def input_cells_def record_clone_assign_to_default_def
        assign_cells_to_clade.simps visit_defs ex_defs ex_final2_def insert_commute)

lemma visit_guards_flags:
  assumes "visit_guards self pb X cs level s = RunCloneAlign s' cc inp ht ha"
  shows "ht = check_valid_df_input [expr inp, cnv inp]
     \<and> ha = check_valid_df_input [hscn inp, snv_allele inp, snv inp]"
proof -
  have "\<not> check_valid_df_input [None, None]" "\<not> check_valid_df_input [None, None, None]"
    by simp_all
  with assms show ?thesis
    by (auto simp: visit_guards_def scan_clades_self Let_def
          simp del: check_valid_df_input.simps split: if_splits prod.splits)
qed

text \<open>
  The validity test of the code against the validity of a table, and what the loops of
  \<open>record_param_to_dict\<close> and \<open>record_clone_assign_to_dict\<close> leave, position by position.
\<close>

lemma check_valid_df_input_table_valid:
  "check_valid_df_input ts \<longleftrightarrow> (\<forall>t \<in> set ts. table_valid t)"
  by (induction ts) (auto simp: table_valid_def Suc_le_eq split: option.splits)

lemma filter_zip_notin:
  "k \<notin> set (take (length ps) ks) \<Longrightarrow> filter (\<lambda>p. fst p = k) (zip ks ps) = []"
proof -
  assume "k \<notin> set (take (length ps) ks)"
  then have "k \<notin> fst ` set (zip ks ps)"
    by (metis map_fst_zip_take set_map min.commute take_all_iff take_take order_refl
          length_zip length_map)
  then show ?thesis by (auto simp: filter_empty_conv)
qed

lemma record_param_loop_appends:
  "record_param_loop d ks ps = Inr d' \<Longrightarrow>
     length ps \<le> length ks
     \<and> (\<forall>k. d' k =
           (if k \<in> set (take (length ps) ks)
            then Some ((case d k of None \<Rightarrow> [] | Some old \<Rightarrow> old)
                       @ map snd (filter (\<lambda>p. fst p = k) (zip ks ps)))
            else d k))"
proof (induction d ks ps arbitrary: d' rule: record_param_loop.induct)
  case (1 param_dict indices)
  then show ?case by simp
next
  case (2 param_dict p ps)
  then show ?case by simp
next
  case (3 param_dict k0 ks p ps)
  from "3.prems" have
    run: "record_param_loop
            (param_dict(k0 \<mapsto> (case param_dict k0 of None \<Rightarrow> [] | Some l \<Rightarrow> l) @ [p])) ks ps
          = Inr d'"
    by simp
  note IH = "3.IH" [OF run]
  show ?case
  proof (intro conjI allI)
    show "length (p # ps) \<le> length (k0 # ks)" using IH by simp
  next
    fix k
    show "d' k =
           (if k \<in> set (take (length (p # ps)) (k0 # ks))
            then Some ((case param_dict k of None \<Rightarrow> [] | Some old \<Rightarrow> old)
                       @ map snd (filter (\<lambda>p. fst p = k) (zip (k0 # ks) (p # ps))))
            else param_dict k)"
    proof (cases "k = k0")
      case True
      show ?thesis
      proof (cases "k0 \<in> set (take (length ps) ks)")
        case True
        with IH \<open>k = k0\<close> show ?thesis by simp
      next
        case False
        with IH \<open>k = k0\<close> filter_zip_notin [OF False] show ?thesis by simp
      qed
    next
      case False
      with IH show ?thesis by simp
    qed
  qed
qed

lemma upt_0_Suc_shift: "[0..<Suc n] = 0 # map Suc [0..<n]"
  by (simp add: upt_conv_Cons map_Suc_upt del: upt_Suc)

lemma commit_stores_positions:
  "length cs \<le> length ca \<Longrightarrow>
     commit_stores cs ca cc
       = concat (map (\<lambda>k. case ca ! k of
                        None \<Rightarrow> []
                      | Some j \<Rightarrow>
                          [(cs ! k, name (cc ! nat (if j < 0 then int (length cc) + j else j)))])
                  [0..<length cs])"
proof (induction cs ca cc rule: commit_stores.induct)
  case (1 c cs j ca cc)
  then show ?case
    by (simp add: upt_0_Suc_shift o_def del: upt_Suc cong: option.case_cong)
next
  case (2 c cs ca cc)
  then show ?case
    by (simp add: upt_0_Suc_shift o_def del: upt_Suc cong: option.case_cong)
qed simp_all

lemma record_param_to_dict_appends:
  "record_param_to_dict d ks ps = Inr d' \<Longrightarrow>
     (case ps of
        None \<Rightarrow> d' = d
      | Some l \<Rightarrow>
          length l \<le> length ks
          \<and> (\<forall>k. d' k =
                (if k \<in> set (take (length l) ks)
                 then Some ((case d k of None \<Rightarrow> [] | Some old \<Rightarrow> old)
                            @ map snd (filter (\<lambda>p. fst p = k) (zip ks l)))
                 else d k)))"
  by (cases ps) (auto simp: record_param_to_dict_def dest!: record_param_loop_appends)

lemma visit_guards_flags_valid:
  assumes "visit_guards self pb X cs level s = RunCloneAlign s' cc inp ht ha"
  shows "ht = (table_valid (expr inp) \<and> table_valid (cnv inp))
     \<and> ha = (table_valid (hscn inp) \<and> table_valid (snv_allele inp) \<and> table_valid (snv inp))"
  using visit_guards_flags [OF assms] by (simp add: check_valid_df_input_table_valid)

section \<open>The claims\<close>

subsection \<open>C1\<close>

text \<open>
  Claim C1 as stated fails when \<open>infer_s_score\<close> is off: the total-copy-number track is
  usable, the threshold is met, the cells are committed and the inference returned a
  gene-type score, yet \<open>gene_type_score_dict\<close> is left as it was.
\<close>

theorem recording_without_score_counterexample:
  "visit_guards (ex_self\<lparr>infer_s_score := False\<rparr>) ex_pb ex_tree ex_cells 0 ex_s0
     = RunCloneAlign ex_s1 [ex_A, ex_B] ex_inputs True False
   \<and> check_valid_df_input [expr ex_inputs, cnv ex_inputs]
   \<and> float_ge ex_float (float_one_minus ex_float (none_freq ex_result)) (min_record_freq (ex_self\<lparr>infer_s_score := False\<rparr>))
   \<and> params ex_result ''mean_gene_type_score'' = Some (Some [1 / 2])
   \<and> record_and_decide ex_float (ex_self\<lparr>infer_s_score := False\<rparr>) ex_tree ex_cells [ex_A, ex_B]
        ex_inputs True False ex_result ex_s1
       = Inr (Proceed (ex_s1\<lparr>clone_assign_dict := clone_assign_dict ex_s2\<rparr>))
   \<and> gene_type_score_dict (ex_s1\<lparr>clone_assign_dict := clone_assign_dict ex_s2\<rparr>)
       = gene_type_score_dict ex_s1"
  by (simp add: ex_visit_guards_no_s) (simp add: visit_defs ex_defs)

text \<open>
  Claim C1, as amended. In a visit that reaches the inference call, each of the two flags
  says whether the tables of its track, as handed to the inference call, are all valid.
  When the recording raises no exception, it is decided by the test of the code,
  \<open>1 - none_freq >= min_record_freq\<close> on Python floats. When the test holds, the
  assignments are those left by \<open>record_clone_assign_to_dict\<close>: for each position of the
  eligible cells in turn whose returned index is not missing, the cell at that position is
  stored under the name of the clean clade of that index (a negative index counts from the
  end), in front of the earlier stores. The gene-type scores are then appended to
  \<open>gene_type_score_dict\<close> exactly when the total-copy-number track is usable and
  \<open>infer_s_score\<close> is set: the returned scores go to the first row labels of the consensus
  copy number, one score per position, and the list of a row label gets the scores of its
  positions, in their order, after what it held; a returned \<open>None\<close> leaves the accumulator
  as it was. The same holds for the allele-assignment probabilities, \<open>allele_assign_prob_dict\<close>,
  the row labels of the haplotype copy number, the allele-specific track and
  \<open>infer_b_allele\<close>. When the test fails, the assignments and both accumulators are as they
  were.
\<close>

theorem recording_decision:
  assumes "visit_guards self pb current_clade expr_cells level s
             = RunCloneAlign s1 clean_clades inp has_total_copy_number_data
                 has_allele_specific_data"
    and "record_and_decide fl self current_clade expr_cells clean_clades inp
           has_total_copy_number_data has_allele_specific_data r s1 = Inr d"
  shows "has_total_copy_number_data = check_valid_df_input [expr inp, cnv inp]
     \<and> has_total_copy_number_data = (table_valid (expr inp) \<and> table_valid (cnv inp))
     \<and> has_allele_specific_data = check_valid_df_input [hscn inp, snv_allele inp, snv inp]
     \<and> has_allele_specific_data
          = (table_valid (hscn inp) \<and> table_valid (snv_allele inp) \<and> table_valid (snv inp))
     \<and> (if float_ge fl (float_one_minus fl (none_freq r)) (min_record_freq self)
     then (\<exists>sc. record_clone_assign_to_dict expr_cells (clone_assign r) clean_clades s1 = Inr sc
               \<and> clone_assign_dict (decided_state d) = clone_assign_dict sc)
        \<and> length expr_cells \<le> length (clone_assign r)
        \<and> clone_assign_dict (decided_state d)
            = rev (concat (map
                (\<lambda>k. case clone_assign r ! k of
                        None \<Rightarrow> []
                      | Some j \<Rightarrow>
                          [(expr_cells ! k,
                            name (clean_clades
                                   ! nat (if j < 0 then int (length clean_clades) + j else j)))])
                [0..<length expr_cells]))
              @ clone_assign_dict s1
        \<and> (if has_total_copy_number_data \<and> infer_s_score self
            then \<exists>clone_cnv_df ps. cnv inp = Some clone_cnv_df
                   \<and> params r ''mean_gene_type_score'' = Some ps
                   \<and> record_param_to_dict (gene_type_score_dict s1) (index clone_cnv_df) ps
                        = Inr (gene_type_score_dict (decided_state d))
                   \<and> (case ps of
                         None \<Rightarrow> gene_type_score_dict (decided_state d) = gene_type_score_dict s1
                       | Some l \<Rightarrow>
                           length l \<le> length (index clone_cnv_df)
                           \<and> (\<forall>k. gene_type_score_dict (decided_state d) k =
                                 (if k \<in> set (take (length l) (index clone_cnv_df))
                                  then Some ((case gene_type_score_dict s1 k of
                                                None \<Rightarrow> [] | Some old \<Rightarrow> old)
                                             @ map snd (filter (\<lambda>p. fst p = k)
                                                          (zip (index clone_cnv_df) l)))
                                  else gene_type_score_dict s1 k)))
            else gene_type_score_dict (decided_state d) = gene_type_score_dict s1)
        \<and> (if has_allele_specific_data \<and> infer_b_allele self
            then \<exists>hscn_input ps. hscn inp = Some hscn_input
                   \<and> params r ''mean_allele_assign_prob'' = Some ps
                   \<and> record_param_to_dict (allele_assign_prob_dict s1) (index hscn_input) ps
                        = Inr (allele_assign_prob_dict (decided_state d))
                   \<and> (case ps of
                         None \<Rightarrow>
                           allele_assign_prob_dict (decided_state d) = allele_assign_prob_dict s1
                       | Some l \<Rightarrow>
                           length l \<le> length (index hscn_input)
                           \<and> (\<forall>k. allele_assign_prob_dict (decided_state d) k =
                                 (if k \<in> set (take (length l) (index hscn_input))
                                  then Some ((case allele_assign_prob_dict s1 k of
                                                None \<Rightarrow> [] | Some old \<Rightarrow> old)
                                             @ map snd (filter (\<lambda>p. fst p = k)
                                                          (zip (index hscn_input) l)))
                                  else allele_assign_prob_dict s1 k)))
            else allele_assign_prob_dict (decided_state d) = allele_assign_prob_dict s1)
     else clone_assign_dict (decided_state d) = clone_assign_dict s1
        \<and> gene_type_score_dict (decided_state d) = gene_type_score_dict s1
        \<and> allele_assign_prob_dict (decided_state d) = allele_assign_prob_dict s1)"
proof -
  note flags = visit_guards_flags [OF assms(1)] visit_guards_flags_valid [OF assms(1)]
  obtain s2 where o: "record_output self current_clade r s1 = Inr s2"
    and rr: "record_results fl self expr_cells clean_clades inp has_total_copy_number_data
               has_allele_specific_data r s2 = Inr (decided_state d) \<or>
             (\<exists>s3. record_results fl self expr_cells clean_clades inp has_total_copy_number_data
               has_allele_specific_data r s2 = Inr s3 \<and>
               decided_state d = fold (\<lambda>cl. pruned_clades_add (name cl)) clean_clades s3)"
    using assms(2) by (auto simp: record_and_decide_def split: sum.splits if_splits)
  then obtain s3 where rr3: "record_results fl self expr_cells clean_clades inp
        has_total_copy_number_data has_allele_specific_data r s2 = Inr s3"
    and d3: "clone_assign_dict (decided_state d) = clone_assign_dict s3"
      "gene_type_score_dict (decided_state d) = gene_type_score_dict s3"
      "allele_assign_prob_dict (decided_state d) = allele_assign_prob_dict s3"
    by auto
  have f2: "clone_assign_dict s2 = clone_assign_dict s1"
    "gene_type_score_dict s2 = gene_type_score_dict s1"
    "allele_assign_prob_dict s2 = allele_assign_prob_dict s1"
    using record_output_fields [OF o] by auto
  show ?thesis
  proof (cases "float_ge fl (float_one_minus fl (none_freq r)) (min_record_freq self)")
    case False
    with rr3 have "s3 = s2" by (simp add: record_results_def)
    with False d3 f2 flags show ?thesis by simp
  next
    case True
    with rr3 obtain sc sg where
      c: "record_clone_assign_to_dict expr_cells (clone_assign r) clean_clades s2 = Inr sc"
      and g: "record_gene_type_score self inp has_total_copy_number_data r sc = Inr sg"
      and a: "record_allele_assign_prob self inp has_allele_specific_data r sg = Inr s3"
      by (auto simp: record_results_def split: sum.splits)
    have sc: "sc = s2\<lparr>clone_assign_dict :=
                rev (commit_stores expr_cells (clone_assign r) clean_clades) @ clone_assign_dict s2\<rparr>"
      and len: "length expr_cells \<le> length (clone_assign r)"
      using record_clone_assign_to_dict_Inr [OF c] by simp_all
    have c1: "\<exists>sc'. record_clone_assign_to_dict expr_cells (clone_assign r) clean_clades s1 = Inr sc'
               \<and> clone_assign_dict (decided_state d) = clone_assign_dict sc'"
      using record_clone_assign_to_dict_any_state [OF c, of s1]
        record_gene_type_score_fields [OF g] record_allele_assign_prob_fields [OF a] d3 f2 sc
      by simp
    have c2: "clone_assign_dict (decided_state d)
            = rev (concat (map
                (\<lambda>k. case clone_assign r ! k of
                        None \<Rightarrow> []
                      | Some j \<Rightarrow>
                          [(expr_cells ! k,
                            name (clean_clades
                                   ! nat (if j < 0 then int (length clean_clades) + j else j)))])
                [0..<length expr_cells]))
              @ clone_assign_dict s1"
      using record_gene_type_score_fields [OF g] record_allele_assign_prob_fields [OF a] d3 f2 sc
        commit_stores_positions [OF len, of clean_clades]
      by simp
    have g1: "if has_total_copy_number_data \<and> infer_s_score self
            then \<exists>clone_cnv_df ps. cnv inp = Some clone_cnv_df
                   \<and> params r ''mean_gene_type_score'' = Some ps
                   \<and> record_param_to_dict (gene_type_score_dict s1) (index clone_cnv_df) ps
                        = Inr (gene_type_score_dict (decided_state d))
                   \<and> (case ps of
                         None \<Rightarrow> gene_type_score_dict (decided_state d) = gene_type_score_dict s1
                       | Some l \<Rightarrow>
                           length l \<le> length (index clone_cnv_df)
                           \<and> (\<forall>k. gene_type_score_dict (decided_state d) k =
                                 (if k \<in> set (take (length l) (index clone_cnv_df))
                                  then Some ((case gene_type_score_dict s1 k of
                                                None \<Rightarrow> [] | Some old \<Rightarrow> old)
                                             @ map snd (filter (\<lambda>p. fst p = k)
                                                          (zip (index clone_cnv_df) l)))
                                  else gene_type_score_dict s1 k)))
            else gene_type_score_dict (decided_state d) = gene_type_score_dict s1"
    proof (cases "has_total_copy_number_data \<and> infer_s_score self")
      case False
      with g record_allele_assign_prob_fields [OF a] d3 f2 sc show ?thesis
        by (auto simp: record_gene_type_score_def)
    next
      case True
      with g obtain df ps dd where
        e: "cnv inp = Some df" "params r ''mean_gene_type_score'' = Some ps"
          "record_param_to_dict (gene_type_score_dict sc) (index df) ps = Inr dd"
          "sg = sc\<lparr>gene_type_score_dict := dd\<rparr>"
        by (auto simp: record_gene_type_score_def split: option.splits sum.splits)
      have eq: "gene_type_score_dict sc = gene_type_score_dict s1"
        "gene_type_score_dict (decided_state d) = dd"
        using record_allele_assign_prob_fields [OF a] d3 f2 sc e(4) by simp_all
      from record_param_to_dict_appends [OF e(3)] e(1,2,3) eq True show ?thesis
        by (simp split: option.splits)
    qed
    have a1: "if has_allele_specific_data \<and> infer_b_allele self
            then \<exists>hscn_input ps. hscn inp = Some hscn_input
                   \<and> params r ''mean_allele_assign_prob'' = Some ps
                   \<and> record_param_to_dict (allele_assign_prob_dict s1) (index hscn_input) ps
                        = Inr (allele_assign_prob_dict (decided_state d))
                   \<and> (case ps of
                         None \<Rightarrow>
                           allele_assign_prob_dict (decided_state d) = allele_assign_prob_dict s1
                       | Some l \<Rightarrow>
                           length l \<le> length (index hscn_input)
                           \<and> (\<forall>k. allele_assign_prob_dict (decided_state d) k =
                                 (if k \<in> set (take (length l) (index hscn_input))
                                  then Some ((case allele_assign_prob_dict s1 k of
                                                None \<Rightarrow> [] | Some old \<Rightarrow> old)
                                             @ map snd (filter (\<lambda>p. fst p = k)
                                                          (zip (index hscn_input) l)))
                                  else allele_assign_prob_dict s1 k)))
            else allele_assign_prob_dict (decided_state d) = allele_assign_prob_dict s1"
    proof (cases "has_allele_specific_data \<and> infer_b_allele self")
      case False
      with a record_gene_type_score_fields [OF g] d3 f2 sc show ?thesis
        by (auto simp: record_allele_assign_prob_def)
    next
      case True
      with a obtain df ps dd where
        e: "hscn inp = Some df" "params r ''mean_allele_assign_prob'' = Some ps"
          "record_param_to_dict (allele_assign_prob_dict sg) (index df) ps = Inr dd"
          "s3 = sg\<lparr>allele_assign_prob_dict := dd\<rparr>"
        by (auto simp: record_allele_assign_prob_def split: option.splits sum.splits)
      have eq: "allele_assign_prob_dict sg = allele_assign_prob_dict s1"
        "allele_assign_prob_dict (decided_state d) = dd"
        using record_gene_type_score_fields [OF g] d3 f2 sc e(4) by simp_all
      from record_param_to_dict_appends [OF e(3)] e(1,2,3) eq True show ?thesis
        by (simp split: option.splits)
    qed
    from True c1 c2 len g1 a1 flags show ?thesis by simp
  qed
qed

theorem recording_decision_witness:
  "record_param_to_dict (gene_type_score_dict ex_s1) (index ex_cnv) (Some [1 / 2])
     = Inr (gene_type_score_dict ex_s2)
   \<and> gene_type_score_dict ex_s2 ''g1'' = Some [1 / 2]
   \<and> allele_assign_prob_dict ex_s2 = allele_assign_prob_dict ex_s1
   \<and> (\<exists>sc. record_clone_assign_to_dict ex_cells (clone_assign ex_result) [ex_A, ex_B] ex_s1 = Inr sc
          \<and> clone_assign_dict ex_s2 = clone_assign_dict sc)"
  using recording_decision [OF ex_visit_guards ex_record_and_decide]
  by (simp add: ex_defs)

subsection \<open>C2\<close>

text \<open>
  Claim C2. In a visit that reaches the inference call, whose inference call returns and
  whose recording raises no exception: when both \<open>1 - none_freq >= min_record_freq\<close> and
  \<open>1 - none_freq >= min_proceed_freq\<close> hold, as tests on Python floats with the rounded
  subtraction of the code, the visit continues as the visits, in order and
  at \<open>level + 1\<close>, of each clean clade of index \<open>i\<close> with the eligible cells whose returned
  index is \<open>i\<close>, and adds nothing to \<open>pruned_clades\<close>; otherwise it adds every clean clade
  to \<open>pruned_clades\<close> and returns without a recursive visit.
\<close>

theorem proceed_decision:
  assumes "visit_guards self pb current_clade expr_cells level s
             = RunCloneAlign s1 clean_clades inp has_total_copy_number_data
                 has_allele_specific_data"
    and "run_clonealign_pyro_repeat (cnv inp) (expr inp) (hscn inp) (snv_allele inp) (snv inp)
           = Some r"
    and "record_and_decide fl self current_clade expr_cells clean_clades inp
           has_total_copy_number_data has_allele_specific_data r s1 = Inr d"
  shows "clean_clades = clean_clades_of self current_clade \<and>
    (if float_ge fl (float_one_minus fl (none_freq r)) (min_record_freq self)
  \<and> float_ge fl (float_one_minus fl (none_freq r)) (min_proceed_freq self)
     then d = Proceed (decided_state d)
        \<and> pruned_clades (decided_state d) = pruned_clades s1
        \<and> assign_cells_to_clade fl self pb run_clonealign_pyro_repeat current_clade expr_cells level s
            = fold_result
                (\<lambda>(i, cl). assign_cells_to_clade fl self pb run_clonealign_pyro_repeat cl
                     (child_cells expr_cells (clone_assign r) i) (level + 1))
                (zip (map int [0..<length clean_clades]) clean_clades) (decided_state d)
     else d = Stop (decided_state d)
        \<and> pruned_clades (decided_state d) = pruned_clades s1 \<union> name ` set clean_clades
        \<and> assign_cells_to_clade fl self pb run_clonealign_pyro_repeat current_clade expr_cells level s
            = Inr (decided_state d))"
proof -
  note d = record_and_decide_Inr [OF assms(3)]
  have cc: "clean_clades = clean_clades_of self current_clade"
    using visit_guards_RunCloneAlign [OF assms(1)] by simp
  show ?thesis
  proof (cases "float_ge fl (float_one_minus fl (none_freq r)) (min_record_freq self)
         \<and> float_ge fl (float_one_minus fl (none_freq r)) (min_proceed_freq self)")
    case True
    with d have p: "d = Proceed (decided_state d)"
      and len: "length expr_cells \<le> length (clone_assign r)" by auto
    have "assign_cells_to_clade fl self pb run_clonealign_pyro_repeat current_clade expr_cells level s
           = proceed_loop fl self pb run_clonealign_pyro_repeat clean_clades 0 expr_cells
               (clone_assign r) level (decided_state d)"
      using p by (cases d) (simp_all add: assign_cells_to_clade.simps assms)
    with True d p cc show ?thesis
      by (simp add: proceed_loop_fold_result [OF len])
  next
    case False
    with d have p: "d = Stop (decided_state d)" by auto
    have "assign_cells_to_clade fl self pb run_clonealign_pyro_repeat current_clade expr_cells level s
           = Inr (decided_state d)"
      using p by (cases d) (simp_all add: assign_cells_to_clade.simps assms)
    with False d p cc show ?thesis by auto
  qed
qed

theorem proceed_decision_witness:
  "assign_cells_to_clade ex_float ex_self ex_pb ex_run ex_tree ex_cells 0 ex_s0
     = fold_result
         (\<lambda>(i, cl). assign_cells_to_clade ex_float ex_self ex_pb ex_run cl
              (child_cells ex_cells (clone_assign ex_result) i) 1)
         [(0, ex_A), (1, ex_B)] ex_s2
   \<and> child_cells ex_cells (clone_assign ex_result) 0 = [''x1'']
   \<and> child_cells ex_cells (clone_assign ex_result) 1 = [''x2'']
   \<and> pruned_clades ex_s2 = pruned_clades ex_s1"
proof -
  have r: "ex_run (cnv ex_inputs) (expr ex_inputs) (hscn ex_inputs) (snv_allele ex_inputs)
             (snv ex_inputs) = Some ex_result"
    by (simp add: ex_run_def)
  have t: "float_ge ex_float (float_one_minus ex_float (none_freq ex_result)) (min_record_freq ex_self)
           \<and> float_ge ex_float (float_one_minus ex_float (none_freq ex_result)) (min_proceed_freq ex_self)"
    by (simp add: ex_defs)
  have z: "zip (map int [0..<length [ex_A, ex_B]]) [ex_A, ex_B] = [(0, ex_A), (1, ex_B)]"
    by (simp add: upt_rec)
  show ?thesis
    using proceed_decision [where run_clonealign_pyro_repeat = ex_run,
        OF ex_visit_guards r ex_record_and_decide] t z
    by (simp add: child_cells_def ex_defs)
qed

subsection \<open>C3\<close>

text \<open>
  Claim C3. In a run of the entry point that returns (no exception, of the inference call
  or otherwise), the initialisation stores the name of the root for every input cell, the
  traversal only adds stores in front of those already made, so no entry is ever removed,
  and at the end \<open>clone_assign_dict\<close> is defined on every input cell.
\<close>

theorem clone_assign_dict_total:
  assumes "input_cells self = Inr cells"
    and "assign_cells_to_tree fl self pb run_clonealign_pyro_repeat s = Inr s'"
  shows "(\<forall>cell \<in> set cells.
            map_of (clone_assign_dict
              (record_clone_assign_to_default cells (tree self) (s\<lparr>pruned_clades := {}\<rparr>))) cell
            = Some (name (tree self)))
     \<and> (\<exists>W. clone_assign_dict s'
           = W @ clone_assign_dict
                   (record_clone_assign_to_default cells (tree self) (s\<lparr>pruned_clades := {}\<rparr>)))
     \<and> dom (map_of (clone_assign_dict s)) \<subseteq> dom (map_of (clone_assign_dict s'))
     \<and> (\<forall>cell \<in> set cells. \<exists>n. map_of (clone_assign_dict s') cell = Some n)"
proof -
  let ?s0 = "record_clone_assign_to_default cells (tree self) (s\<lparr>pruned_clades := {}\<rparr>)"
  have d0: "clone_assign_dict ?s0
              = rev (map (\<lambda>c. (c, name (tree self))) cells) @ clone_assign_dict s"
    by (simp add: record_clone_assign_to_default_def)
  have init: "\<forall>cell \<in> set cells. map_of (clone_assign_dict ?s0) cell = Some (name (tree self))"
    by (simp add: d0 map_of_rev_const map_add_def)
  have "assign_cells_to_clade fl self pb run_clonealign_pyro_repeat (tree self) cells 0 ?s0 = Inr s'"
    using assms by (simp add: assign_cells_to_tree_def)
  from visit_stores(1) [OF this] obtain W where
    W: "clone_assign_dict s' = W @ clone_assign_dict ?s0" by blast
  have "dom (map_of (clone_assign_dict ?s0)) \<subseteq> dom (map_of (clone_assign_dict s'))"
    unfolding W by (rule dom_map_of_append)
  moreover have "dom (map_of (clone_assign_dict s)) \<subseteq> dom (map_of (clone_assign_dict ?s0))"
    unfolding d0 by (rule dom_map_of_append)
  moreover have "set cells \<subseteq> dom (map_of (clone_assign_dict ?s0))"
    using init by (auto simp: dom_def)
  ultimately have "dom (map_of (clone_assign_dict s)) \<subseteq> dom (map_of (clone_assign_dict s'))"
    and "\<forall>cell \<in> set cells. \<exists>n. map_of (clone_assign_dict s') cell = Some n"
    by blast+
  with init W show ?thesis by blast
qed

theorem clone_assign_dict_total_witness:
  "map_of (clone_assign_dict ex_final) ''x1'' = Some ''A''
   \<and> map_of (clone_assign_dict ex_final) ''x2'' = Some ''B''
   \<and> map_of (clone_assign_dict ex_final) ''x3'' = Some ''R''"
  using clone_assign_dict_total [OF ex_input_cells ex_full_run]
  by (simp add: ex_defs)

subsection \<open>C4\<close>

text \<open>
  Claim C4. In a visit that passes the depth and availability guards and has exactly one
  clean clade, the guards, which have no access to the inference function and read no
  frequency, store every eligible cell under the name of that clade, in the order of the
  cells and in front of the earlier stores, and leave the accumulators and diagnostics as
  they were. The visit then makes a recursive call, to that clade at \<open>level + 1\<close> with the
  same cells and from the state so reached: without budget for a recursive call it has no
  result, with a budget of \<open>d + 1\<close> calls it is that visit of the child with budget \<open>d\<close>,
  and with the budget that the depth guard grants it is the visit itself. What the visit
  returns is what that visit of the child returns; at \<open>level = level_cutoff\<close> that is the
  state of the bypass with the child added to \<open>pruned_clades\<close> by the depth guard of
  \<open>level + 1\<close>; and in every final state the stores of the bypass are still there, beneath
  later stores that are all for eligible cells.
\<close>

theorem single_clean_child_bypass:
  assumes "level \<le> level_cutoff self"
    and "min_cell_count_expr self \<le> int (length expr_cells)"
    and "min_cell_count_cnv self \<le> int (length (get_terminals current_clade))"
    and "clean_clades_of self current_clade = [child]"
  shows "\<exists>s'. visit_guards self pb current_clade expr_cells level s = OneChild s' child
      \<and> clone_assign_dict s'
          = rev (map (\<lambda>cell. (cell, name child)) expr_cells) @ clone_assign_dict s
      \<and> (\<forall>cell \<in> set expr_cells. map_of (clone_assign_dict s') cell = Some (name child))
      \<and> gene_type_score_dict s' = gene_type_score_dict s
      \<and> allele_assign_prob_dict s' = allele_assign_prob_dict s
      \<and> params_dict s' = params_dict s
      \<and> assign_cells_to_clade fl self pb run_clonealign_pyro_repeat current_clade expr_cells level s
          = assign_cells_to_clade fl self pb run_clonealign_pyro_repeat child expr_cells (level + 1) s'
      \<and> assign_cells_to_clade_within fl 0 self pb run_clonealign_pyro_repeat current_clade
            expr_cells level s = None
      \<and> (\<forall>d. assign_cells_to_clade_within fl (Suc d) self pb run_clonealign_pyro_repeat
                 current_clade expr_cells level s
               = assign_cells_to_clade_within fl d self pb run_clonealign_pyro_repeat child
                   expr_cells (level + 1) s')
      \<and> (\<forall>d. nat (level_cutoff self + 1 - level) \<le> d \<longrightarrow>
               assign_cells_to_clade_within fl d self pb run_clonealign_pyro_repeat
                 current_clade expr_cells level s
               = Some (assign_cells_to_clade fl self pb run_clonealign_pyro_repeat
                         current_clade expr_cells level s))
      \<and> (level = level_cutoff self \<longrightarrow>
            assign_cells_to_clade fl self pb run_clonealign_pyro_repeat current_clade
              expr_cells level s
            = Inr (s'\<lparr>pruned_clades := insert (name child) (pruned_clades s')\<rparr>))
      \<and> (\<forall>s_end. assign_cells_to_clade fl self pb run_clonealign_pyro_repeat current_clade
                    expr_cells level s = Inr s_end \<longrightarrow>
                 (\<exists>W. clone_assign_dict s_end
                        = W @ rev (map (\<lambda>cell. (cell, name child)) expr_cells)
                            @ clone_assign_dict s
                      \<and> fst ` set W \<subseteq> set expr_cells))"
proof -
  let ?s' = "fold (\<lambda>cell. clone_assign_store cell (name child)) expr_cells
               (fold (\<lambda>cl. pruned_clades_add (name cl)) (small_clades_of self current_clade) s)"
  let ?B = "rev (map (\<lambda>cell. (cell, name child)) expr_cells)"
  have v: "visit_guards self pb current_clade expr_cells level s = OneChild ?s' child"
    using assms by (simp add: visit_guards_def scan_clades_self)
  have cad: "clone_assign_dict ?s' = ?B @ clone_assign_dict s" by simp
  have eq: "assign_cells_to_clade fl self pb run_clonealign_pyro_repeat current_clade expr_cells
              level s
          = assign_cells_to_clade fl self pb run_clonealign_pyro_repeat child expr_cells
              (level + 1) ?s'"
    by (subst assign_cells_to_clade.simps) (simp add: v)
  have w0: "assign_cells_to_clade_within fl 0 self pb run_clonealign_pyro_repeat current_clade
              expr_cells level s = None"
    by (subst assign_cells_to_clade_within.simps) (simp add: v)
  have wS: "assign_cells_to_clade_within fl (Suc d) self pb run_clonealign_pyro_repeat
                 current_clade expr_cells level s
               = assign_cells_to_clade_within fl d self pb run_clonealign_pyro_repeat child
                   expr_cells (level + 1) ?s'" for d
    by (subst assign_cells_to_clade_within.simps) (simp add: v)
  have wE: "assign_cells_to_clade_within fl d self pb run_clonealign_pyro_repeat
                      current_clade expr_cells level s
                    = Some (assign_cells_to_clade fl self pb run_clonealign_pyro_repeat
                              current_clade expr_cells level s)"
    if "nat (level_cutoff self + 1 - level) \<le> d" for d
    using that by (rule within_enough(1))
  have top: "assign_cells_to_clade fl self pb run_clonealign_pyro_repeat current_clade
                 expr_cells level s
               = Inr (?s'\<lparr>pruned_clades := insert (name child) (pruned_clades ?s')\<rparr>)"
    if "level = level_cutoff self"
  proof -
    have "visit_guards self pb child expr_cells (level + 1) ?s'
            = Return (pruned_clades_add (name child) ?s')"
      using that by (simp add: visit_guards_def)
    then have "assign_cells_to_clade fl self pb run_clonealign_pyro_repeat child expr_cells
                 (level + 1) ?s' = Inr (pruned_clades_add (name child) ?s')"
      by (subst assign_cells_to_clade.simps) simp
    with eq show ?thesis by (simp add: pruned_clades_add_def)
  qed
  have fin: "\<exists>W. clone_assign_dict s_end = W @ ?B @ clone_assign_dict s
                \<and> fst ` set W \<subseteq> set expr_cells"
    if "assign_cells_to_clade fl self pb run_clonealign_pyro_repeat current_clade
          expr_cells level s = Inr s_end" for s_end
  proof -
    from that eq have "assign_cells_to_clade fl self pb run_clonealign_pyro_repeat child
        expr_cells (level + 1) ?s' = Inr s_end" by simp
    from visit_stores(1) [OF this] cad show ?thesis by auto
  qed
  show ?thesis
    apply (rule exI [of _ ?s'])
    apply (intro conjI)
    subgoal by (rule v)
    subgoal by (rule cad)
    subgoal by (simp add: map_of_rev_const map_add_def)
    subgoal by simp
    subgoal by simp
    subgoal by simp
    subgoal by (rule eq)
    subgoal by (rule w0)
    subgoal using wS by blast
    subgoal using wE by blast
    subgoal using top by blast
    subgoal using fin by blast
    done
qed

theorem single_clean_child_bypass_witness:
  "assign_cells_to_clade ex_float ex_self ex_pb (\<lambda>c e h a v. None) ex_chain [''x1'', ''x2''] 0
       ex_state
     = Inr (ex_state\<lparr>clone_assign_dict := [(''x2'', ''A''), (''x1'', ''A'')],
                     pruned_clades := {''a1'', ''a2'', ''c1''}\<rparr>)
   \<and> assign_cells_to_clade_within ex_float 0 ex_self ex_pb (\<lambda>c e h a v. None) ex_chain
        [''x1'', ''x2''] 0 ex_state = None
   \<and> assign_cells_to_clade_within ex_float 1 ex_self ex_pb (\<lambda>c e h a v. None) ex_chain
        [''x1'', ''x2''] 0 ex_state
       = Some (Inr (ex_state\<lparr>clone_assign_dict := [(''x2'', ''A''), (''x1'', ''A'')],
                              pruned_clades := {''a1'', ''a2'', ''c1''}\<rparr>))
   \<and> assign_cells_to_clade ex_float (ex_self\<lparr>level_cutoff := 0\<rparr>) ex_pb (\<lambda>c e h a v. None)
        ex_chain [''x1'', ''x2''] 0 ex_state
       = Inr (ex_state\<lparr>clone_assign_dict := [(''x2'', ''A''), (''x1'', ''A'')],
                       pruned_clades := {''A'', ''c1''}\<rparr>)"
proof -
  have h1: "0 \<le> level_cutoff ex_self"
    and h2: "min_cell_count_expr ex_self \<le> int (length [''x1'', ''x2''])"
    and h3: "min_cell_count_cnv ex_self \<le> int (length (get_terminals ex_chain))"
    and h4: "clean_clades_of ex_self ex_chain = [ex_A]"
    by (simp_all add: clean_clades_of_def ex_defs)
  have r: "assign_cells_to_clade ex_float ex_self ex_pb (\<lambda>c e h a v. None) ex_chain
             [''x1'', ''x2''] 0 ex_state
           = Inr (ex_state\<lparr>clone_assign_dict := [(''x2'', ''A''), (''x1'', ''A'')],
                           pruned_clades := {''a1'', ''a2'', ''c1''}\<rparr>)"
    by (simp add: assign_cells_to_clade.simps visit_defs ex_defs insert_commute)
  have w: "assign_cells_to_clade_within ex_float 1 ex_self ex_pb (\<lambda>c e h a v. None) ex_chain
        [''x1'', ''x2''] 0 ex_state
       = Some (Inr (ex_state\<lparr>clone_assign_dict := [(''x2'', ''A''), (''x1'', ''A'')],
                              pruned_clades := {''a1'', ''a2'', ''c1''}\<rparr>))"
    by (simp add: assign_cells_to_clade_within.simps visit_defs ex_defs insert_commute)
  have c: "assign_cells_to_clade ex_float (ex_self\<lparr>level_cutoff := 0\<rparr>) ex_pb (\<lambda>c e h a v. None)
        ex_chain [''x1'', ''x2''] 0 ex_state
       = Inr (ex_state\<lparr>clone_assign_dict := [(''x2'', ''A''), (''x1'', ''A'')],
                       pruned_clades := {''A'', ''c1''}\<rparr>)"
    by (simp add: assign_cells_to_clade.simps visit_defs ex_defs insert_commute)
  from single_clean_child_bypass [OF h1 h2 h3 h4, where s = ex_state and pb = ex_pb
        and run_clonealign_pyro_repeat = "\<lambda>c e h a v. None" and fl = ex_float]
  have "assign_cells_to_clade_within ex_float 0 ex_self ex_pb (\<lambda>c e h a v. None) ex_chain
          [''x1'', ''x2''] 0 ex_state = None"
    by (elim exE conjE)
  with r w c show ?thesis by simp
qed

subsection \<open>C5\<close>

text \<open>
  Claim C5 as stated fails when one cell identifier labels two columns: the cell is set
  to the root twice (the second store replaces \<open>R\<close> by \<open>R\<close>, which is no child of \<open>R\<close>),
  and the commit then replaces \<open>A\<close> by its sibling \<open>B\<close>; the values of the cell lie on no
  downward path.
\<close>

theorem duplicate_cell_counterexample:
  "input_cells ex_self_dup = Inr [''x1'', ''x1'']
   \<and> assign_cells_to_tree ex_float ex_self_dup ex_pb ex_run ex_state = Inr ex_dup_final
   \<and> values_of ''x1'' (clone_assign_dict ex_dup_final) = [''R'', ''R'', ''A'', ''B'']
   \<and> ''R'' \<notin> name ` set (clades ex_tree)
   \<and> name ex_A = ''A'' \<and> ''B'' \<notin> name ` set (clades ex_A)
   \<and> \<not> (\<exists>p. is_path (ex_tree # p)
            \<and> values_of ''x1'' (clone_assign_dict ex_dup_final) = map name (ex_tree # p))"
proof -
  have 1: "input_cells ex_self_dup = Inr [''x1'', ''x1'']"
    by (simp add: input_cells_def ex_self_dup_def ex_defs)
  have 2: "assign_cells_to_tree ex_float ex_self_dup ex_pb ex_run ex_state = Inr ex_dup_final"
    by (simp add: assign_cells_to_tree_def input_cells_def record_clone_assign_to_default_def
          assign_cells_to_clade.simps visit_defs ex_self_dup_def ex_dup_final_def ex_defs
          insert_commute)
  have 3: "values_of ''x1'' (clone_assign_dict ex_dup_final) = [''R'', ''R'', ''A'', ''B'']"
    by (simp add: values_of_def ex_dup_final_def)
  have 4: "''R'' \<notin> name ` set (clades ex_tree)" "name ex_A = ''A''"
    "''B'' \<notin> name ` set (clades ex_A)"
    by (simp_all add: ex_defs)
  have 5: "\<not> (\<exists>p. is_path (ex_tree # p) \<and> [''R'', ''R'', ''A'', ''B''] = map name (ex_tree # p))"
  proof
    assume "\<exists>p. is_path (ex_tree # p) \<and> [''R'', ''R'', ''A'', ''B''] = map name (ex_tree # p)"
    then obtain p where p: "is_path (ex_tree # p)" "[''R'', ''R'', ''A'', ''B''] = map name (ex_tree # p)"
      by (elim exE conjE)
    from p(2) obtain y q where y: "p = y # q" "name y = ''R''" by (cases p) auto
    with p(1) have "y \<in> set (clades ex_tree)" by simp
    then have "name y \<in> name ` set (clades ex_tree)" by (rule imageI)
    with y(2) 4(1) show False by simp
  qed
  from 1 2 3 4 5 show ?thesis by simp
qed

text \<open>
  Claim C5, as amended. When the input cell identifiers are pairwise distinct and the run
  returns, the values stored for an input cell during the run, in the order of the stores,
  are the names of the clades of one downward path that starts at the root: the first
  store is the name of the root, and every later one replaces the name of a clade by the
  name of one of its children. Nothing is stored for any other cell.
\<close>

theorem assignment_follows_one_path:
  assumes "input_cells self = Inr cells"
    and "distinct cells"
    and "assign_cells_to_tree fl self pb run_clonealign_pyro_repeat s = Inr s'"
  shows "\<exists>W. clone_assign_dict s' = W @ clone_assign_dict s
     \<and> (\<forall>cell \<in> set cells.
           \<exists>p. is_path (tree self # p) \<and> values_of cell W = map name (tree self # p))
     \<and> (\<forall>cell. cell \<notin> set cells \<longrightarrow> values_of cell W = [])"
proof -
  let ?s0 = "record_clone_assign_to_default cells (tree self) (s\<lparr>pruned_clades := {}\<rparr>)"
  let ?I = "rev (map (\<lambda>c. (c, name (tree self))) cells)"
  have d0: "clone_assign_dict ?s0 = ?I @ clone_assign_dict s"
    by (simp add: record_clone_assign_to_default_def)
  have "assign_cells_to_clade fl self pb run_clonealign_pyro_repeat (tree self) cells 0 ?s0 = Inr s'"
    using assms by (simp add: assign_cells_to_tree_def)
  from visit_paths(1) [OF assms(2) this] obtain W where
    W: "clone_assign_dict s' = W @ clone_assign_dict ?s0"
      "\<forall>c \<in> set cells. \<exists>p. is_path (tree self # p) \<and> values_of c W = map name p"
      "\<forall>c. c \<notin> set cells \<longrightarrow> values_of c W = []"
    by blast
  have "clone_assign_dict s' = (W @ ?I) @ clone_assign_dict s"
    using W(1) d0 by simp
  moreover have "\<exists>p. is_path (tree self # p) \<and> values_of c (W @ ?I) = map name (tree self # p)"
    if "c \<in> set cells" for c
  proof -
    from W(2) that obtain p where p: "is_path (tree self # p)" "values_of c W = map name p"
      by blast
    with that show ?thesis
      by (intro exI [of _ p]) (simp add: values_of_append values_of_const [OF assms(2)])
  qed
  moreover have "values_of c (W @ ?I) = []" if "c \<notin> set cells" for c
    using that W(3) by (simp add: values_of_append values_of_const [OF assms(2)])
  ultimately show ?thesis by blast
qed

theorem assignment_follows_one_path_witness:
  "values_of ''x1'' (clone_assign_dict ex_final) = map name [ex_tree, ex_A]
   \<and> is_path [ex_tree, ex_A]
   \<and> values_of ''x2'' (clone_assign_dict ex_final) = map name [ex_tree, ex_B]
   \<and> is_path [ex_tree, ex_B]
   \<and> values_of ''x3'' (clone_assign_dict ex_final) = map name [ex_tree]"
proof -
  have "distinct ex_cells" by (simp add: ex_cells_def)
  from assignment_follows_one_path [OF ex_input_cells this ex_full_run]
  show ?thesis by (simp add: values_of_def ex_defs)
qed

subsection \<open>C6\<close>

text \<open>
  Claim C6. Two successive runs on one object. The first run ends with one gene-type
  score for \<open>g1\<close> in \<open>gene_type_score_dict\<close>. For the second run the entry point empties
  \<open>pruned_clades\<close> and sets the cells to the root, and the accumulator still holds that
  score when the root visit starts; the second run ends with two scores for \<open>g1\<close>, where
  one run gives one.
\<close>

theorem second_run_appends_to_accumulator:
  "assign_cells_to_tree ex_float ex_self ex_pb ex_run ex_state = Inr ex_final
   \<and> gene_type_score_dict ex_final ''g1'' = Some [1 / 2]
   \<and> gene_type_score_dict
        (record_clone_assign_to_default ex_cells (tree ex_self) (ex_final\<lparr>pruned_clades := {}\<rparr>))
        ''g1'' = Some [1 / 2]
   \<and> assign_cells_to_tree ex_float ex_self ex_pb ex_run ex_final = Inr ex_final2
   \<and> gene_type_score_dict ex_final2 ''g1'' = Some [1 / 2, 1 / 2]"
  by (simp add: ex_full_run ex_second_run)
    (simp add: record_clone_assign_to_default_def clone_assign_store_def ex_defs ex_final2_def)

subsection \<open>C7\<close>

text \<open>
  Claim C7. The traversal terminates: \<open>assign_cells_to_clade\<close> is a total function, its
  termination proved from the level alone. A visit entered with \<open>level > level_cutoff\<close>
  adds its clade to \<open>pruned_clades\<close> and returns at once. Each of the two recursive call
  sites passes \<open>level + 1\<close> and uses up one unit of the budget of \<open>assign_cells_to_clade_within\<close>,
  and a budget of \<open>level_cutoff + 1 - level\<close> nested visits is always enough: below the root
  visit at level 0 the recursion is never deeper than \<open>level_cutoff + 1\<close>.
\<close>

theorem depth_guard_bounds_recursion:
  "(level > level_cutoff self \<longrightarrow>
       visit_guards self pb current_clade expr_cells level s
         = Return (s\<lparr>pruned_clades := insert (name current_clade) (pruned_clades s)\<rparr>)
     \<and> assign_cells_to_clade fl self pb run_clonealign_pyro_repeat current_clade expr_cells level s
         = Inr (s\<lparr>pruned_clades := insert (name current_clade) (pruned_clades s)\<rparr>))
   \<and> (nat (level_cutoff self + 1 - level) \<le> d \<longrightarrow>
       assign_cells_to_clade_within fl d self pb run_clonealign_pyro_repeat current_clade expr_cells
           level s
         = Some (assign_cells_to_clade fl self pb run_clonealign_pyro_repeat current_clade expr_cells
                   level s))
   \<and> assign_cells_to_clade_within fl (nat (level_cutoff self + 1)) self pb
         run_clonealign_pyro_repeat current_clade expr_cells 0 s
       = Some (assign_cells_to_clade fl self pb run_clonealign_pyro_repeat current_clade expr_cells
                 0 s)"
proof -
  have "visit_guards self pb current_clade expr_cells level s
         = Return (s\<lparr>pruned_clades := insert (name current_clade) (pruned_clades s)\<rparr>)"
    if "level > level_cutoff self"
    using that by (simp add: visit_guards_def pruned_clades_add_def)
  then show ?thesis
    using within_enough(1) [where fl = fl and self = self and level = level and d = d and pb = pb
        and run = run_clonealign_pyro_repeat and X = current_clade and cs = expr_cells and s = s]
      within_enough(1) [where fl = fl and self = self and level = 0
        and d = "nat (level_cutoff self + 1)" and pb = pb and run = run_clonealign_pyro_repeat
        and X = current_clade and cs = expr_cells and s = s]
    by (simp add: assign_cells_to_clade.simps [of _ _ _ _ current_clade expr_cells level])
qed

theorem depth_guard_bounds_recursion_witness:
  "assign_cells_to_clade ex_float ex_self ex_pb ex_run ex_tree ex_cells 11 ex_s0
     = Inr (ex_s0\<lparr>pruned_clades := {''R''}\<rparr>)
   \<and> assign_cells_to_clade_within ex_float 1 (ex_self\<lparr>level_cutoff := 0\<rparr>) ex_pb ex_run ex_tree ex_cells 0
        ex_s0
       = Some (Inr (ex_s2\<lparr>pruned_clades := {''A'', ''B'', ''c1''}\<rparr>))
   \<and> assign_cells_to_clade_within ex_float 0 (ex_self\<lparr>level_cutoff := 0\<rparr>) ex_pb ex_run ex_tree ex_cells 0
        ex_s0
       = None"
proof -
  have "assign_cells_to_clade ex_float (ex_self\<lparr>level_cutoff := 0\<rparr>) ex_pb ex_run ex_tree ex_cells 0 ex_s0
          = Inr (ex_s2\<lparr>pruned_clades := {''A'', ''B'', ''c1''}\<rparr>)"
    by (simp add: assign_cells_to_clade.simps visit_defs ex_defs insert_commute)
  moreover
  have "assign_cells_to_clade_within ex_float 0 (ex_self\<lparr>level_cutoff := 0\<rparr>) ex_pb ex_run ex_tree
          ex_cells 0 ex_s0 = None"
    by (simp add: assign_cells_to_clade_within.simps visit_defs ex_defs)
  ultimately show ?thesis
    using depth_guard_bounds_recursion [where level = 11 and self = ex_self and pb = ex_pb
        and current_clade = ex_tree and expr_cells = ex_cells and s = ex_s0
        and run_clonealign_pyro_repeat = ex_run and fl = ex_float]
      depth_guard_bounds_recursion [where level = 0 and self = "ex_self\<lparr>level_cutoff := 0\<rparr>"
        and pb = ex_pb and current_clade = ex_tree and expr_cells = ex_cells and s = ex_s0
        and d = 1 and run_clonealign_pyro_repeat = ex_run and fl = ex_float]
    by (simp add: ex_defs)
qed

subsection \<open>C8\<close>

text \<open>
  Claim C8. A table is valid exactly when it is present and has at least one row and at
  least one column, and the test of the code holds of a list of tables exactly when every
  table of the list is valid: so the total-copy-number track is usable exactly when the
  expression input and the consensus copy number are both valid, and the allele-specific
  track exactly when the haplotype copy number, the SNV-allele table and the SNV table are
  all valid. In a visit that passes the depth and availability guards and has at least two
  clean clades, when neither track is usable, the visit returns before the inference call,
  whatever the inference function is: every child of the clade, the clean ones included,
  is then in \<open>pruned_clades\<close>, and nothing else of the state has changed.
\<close>

theorem no_usable_input_prunes_clean_clades:
  assumes "level \<le> level_cutoff self"
    and "min_cell_count_expr self \<le> int (length expr_cells)"
    and "min_cell_count_cnv self \<le> int (length (get_terminals current_clade))"
    and "2 \<le> length (clean_clades_of self current_clade)"
    and "construct_total_copy_number_input pb
           (terminals_of (clean_clades_of self current_clade)) expr_cells
         = (expr_input0, clone_cnv_df)"
    and "construct_allele_specific_input pb
           (terminals_of (clean_clades_of self current_clade)) expr_cells
         = (hscn_input, snv_allele_input0, snv_input0)"
    and "make_columns_consistent pb expr_input0 snv_allele_input0 snv_input0
         = (expr_input, snv_allele_input, snv_input)"
    and "\<not> (table_valid expr_input \<and> table_valid clone_cnv_df)"
    and "\<not> (table_valid hscn_input \<and> table_valid snv_allele_input \<and> table_valid snv_input)"
  shows "(check_valid_df_input [t] \<longleftrightarrow>
            (\<exists>d. t = Some d \<and> 1 \<le> length (index d) \<and> 1 \<le> length (columns d)))
       \<and> (check_valid_df_input [t] \<longleftrightarrow> table_valid t)
       \<and> (\<forall>tables. check_valid_df_input tables \<longleftrightarrow> (\<forall>u \<in> set tables. table_valid u))
       \<and> (check_valid_df_input [expr_input, clone_cnv_df]
            \<longleftrightarrow> table_valid expr_input \<and> table_valid clone_cnv_df)
       \<and> (check_valid_df_input [hscn_input, snv_allele_input, snv_input]
            \<longleftrightarrow> table_valid hscn_input \<and> table_valid snv_allele_input \<and> table_valid snv_input)
       \<and> visit_guards self pb current_clade expr_cells level s
           = Return (s\<lparr>pruned_clades := pruned_clades s \<union> name ` set (clades current_clade)\<rparr>)
       \<and> assign_cells_to_clade fl self pb run_clonealign_pyro_repeat current_clade expr_cells level s
           = Inr (s\<lparr>pruned_clades := pruned_clades s \<union> name ` set (clades current_clade)\<rparr>)
       \<and> name ` set (clean_clades_of self current_clade)
           \<subseteq> pruned_clades s \<union> name ` set (clades current_clade)"
proof -
  have n1: "\<not> check_valid_df_input [expr_input, clone_cnv_df]"
    using assms(8) by (simp add: check_valid_df_input_table_valid)
  have n2: "\<not> check_valid_df_input [hscn_input, snv_allele_input, snv_input]"
    using assms(9) by (simp add: check_valid_df_input_table_valid)
  have v: "visit_guards self pb current_clade expr_cells level s
           = Return (s\<lparr>pruned_clades := pruned_clades s \<union> name ` set (clades current_clade)\<rparr>)"
  proof -
    have "length (clean_clades_of self current_clade) \<noteq> 1"
      and "clean_clades_of self current_clade \<noteq> []"
      using assms(4) by auto
    with assms(1-7) n1 n2 show ?thesis
      by (simp add: visit_guards_def scan_clades_self fold_prune_eq Un_assoc clean_small_names
            del: check_valid_df_input.simps)
  qed
  have sub: "name ` set (clean_clades_of self current_clade)
           \<subseteq> pruned_clades s \<union> name ` set (clades current_clade)"
    by (auto simp: clean_clades_of_def)
  have a: "assign_cells_to_clade fl self pb run_clonealign_pyro_repeat current_clade expr_cells
             level s
           = Inr (s\<lparr>pruned_clades := pruned_clades s \<union> name ` set (clades current_clade)\<rparr>)"
    by (subst assign_cells_to_clade.simps) (simp add: v)
  have t1: "check_valid_df_input [t] \<longleftrightarrow>
            (\<exists>d. t = Some d \<and> 1 \<le> length (index d) \<and> 1 \<le> length (columns d))"
    using check_valid_df_input_iff [of "[t]"] by simp
  have t2: "check_valid_df_input [t] \<longleftrightarrow> table_valid t"
    by (simp add: check_valid_df_input_table_valid)
  have t3: "\<forall>tables. check_valid_df_input tables \<longleftrightarrow> (\<forall>u \<in> set tables. table_valid u)"
    by (simp add: check_valid_df_input_table_valid)
  have t4: "check_valid_df_input [expr_input, clone_cnv_df]
            \<longleftrightarrow> table_valid expr_input \<and> table_valid clone_cnv_df"
    by (simp add: check_valid_df_input_table_valid)
  have t5: "check_valid_df_input [hscn_input, snv_allele_input, snv_input]
            \<longleftrightarrow> table_valid hscn_input \<and> table_valid snv_allele_input \<and> table_valid snv_input"
    by (simp add: check_valid_df_input_table_valid)
  from t1 t2 t3 t4 t5 v a sub show ?thesis by (intro conjI)
qed

theorem no_usable_input_prunes_clean_clades_witness:
  "assign_cells_to_clade ex_float ex_self ex_pb_partial ex_run ex_tree (columns ex_expr) 0
       ex_state
     = Inr (ex_state\<lparr>pruned_clades := {''A'', ''B'', ''c1''}\<rparr>)
   \<and> table_valid (Some ex_expr)
   \<and> \<not> table_valid (Some (ex_cnv\<lparr>index := [], entries := []\<rparr>))
   \<and> table_valid (Some ex_cnv)
   \<and> \<not> table_valid (None :: real df option)
   \<and> \<not> check_valid_df_input [Some ex_expr, Some (ex_cnv\<lparr>index := [], entries := []\<rparr>)]
   \<and> \<not> check_valid_df_input [Some ex_cnv, Some ex_expr, None]"
proof -
  have cc: "clean_clades_of ex_self ex_tree
              = [ex_A, ex_B]"
    by (simp add: clean_clades_of_def ex_defs)
  have h1: "0 \<le> level_cutoff ex_self"
    and h2: "min_cell_count_expr ex_self \<le> int (length (columns ex_expr))"
    and h3: "min_cell_count_cnv ex_self \<le> int (length (get_terminals ex_tree))"
    and h4: "2 \<le> length (clean_clades_of ex_self ex_tree)"
    by (simp_all add: cc) (simp_all add: ex_defs)
  have h5: "construct_total_copy_number_input ex_pb_partial
              (terminals_of (clean_clades_of ex_self ex_tree)) (columns ex_expr)
             = (Some ex_expr, Some (ex_cnv\<lparr>index := [], entries := []\<rparr>))"
    and h6: "construct_allele_specific_input ex_pb_partial
              (terminals_of (clean_clades_of ex_self ex_tree)) (columns ex_expr)
               = (Some ex_cnv, Some ex_expr, None)"
    and h7: "make_columns_consistent ex_pb_partial (Some ex_expr) (Some ex_expr) None
               = (Some ex_expr, Some ex_expr, None)"
    by (simp_all add: ex_pb_partial_def)
  have v: "table_valid (Some ex_expr)" "table_valid (Some ex_cnv)"
      "\<not> table_valid (Some (ex_cnv\<lparr>index := [], entries := []\<rparr>))"
      "\<not> table_valid (None :: real df option)"
    by (simp_all add: table_valid_def ex_defs)
  have h8: "\<not> (table_valid (Some ex_expr)
               \<and> table_valid (Some (ex_cnv\<lparr>index := [], entries := []\<rparr>)))"
    and h9: "\<not> (table_valid (Some ex_cnv) \<and> table_valid (Some ex_expr)
               \<and> table_valid (None :: real df option))"
    using v by simp_all
  note T = no_usable_input_prunes_clean_clades [OF h1 h2 h3 h4 h5 h6 h7 h8 h9,
        where s = ex_state and run_clonealign_pyro_repeat = ex_run and fl = ex_float
          and t = None]
  from T have a: "assign_cells_to_clade ex_float ex_self ex_pb_partial ex_run ex_tree
          (columns ex_expr) 0 ex_state
        = Inr (ex_state\<lparr>pruned_clades := pruned_clades ex_state \<union> name ` set (clades ex_tree)\<rparr>)"
    by (elim conjE)
  from T have b: "check_valid_df_input [Some ex_expr, Some (ex_cnv\<lparr>index := [], entries := []\<rparr>)]
        \<longleftrightarrow> table_valid (Some ex_expr)
              \<and> table_valid (Some (ex_cnv\<lparr>index := [], entries := []\<rparr>))"
    by (elim conjE)
  from T have c: "check_valid_df_input [Some ex_cnv, Some ex_expr, None]
        \<longleftrightarrow> table_valid (Some ex_cnv) \<and> table_valid (Some ex_expr)
              \<and> table_valid (None :: real df option)"
    by (elim conjE)
  have a': "assign_cells_to_clade ex_float ex_self ex_pb_partial ex_run ex_tree
          (columns ex_expr) 0 ex_state
        = Inr (ex_state\<lparr>pruned_clades := {''A'', ''B'', ''c1''}\<rparr>)"
    unfolding a by (auto simp: ex_defs)
  from a' b c v show ?thesis by (simp del: check_valid_df_input.simps)
qed

subsection \<open>C9\<close>

text \<open>
  Claim C9 as stated fails when one cell identifier stands at two positions of the eligible
  cells. With the cells \<open>x1\<close>, \<open>x1\<close> and a returned index that is missing at the first
  position and \<open>0\<close> at the second, the result is committed; the cell \<open>x1\<close> has a missing
  returned index, yet its assignment changes from \<open>R\<close> to \<open>A\<close>, it is among the cells
  handed to the visit of \<open>A\<close>, and the run ends with it assigned to \<open>A\<close>.
\<close>

theorem missing_index_repeated_cell_counterexample:
  "input_cells ex_self_dup = Inr [''x1'', ''x1'']
   \<and> record_clone_assign_to_default [''x1'', ''x1''] (tree ex_self_dup)
        (ex_state\<lparr>pruned_clades := {}\<rparr>) = ex_dup_s0
   \<and> visit_guards ex_self_dup ex_pb ex_tree [''x1'', ''x1''] 0 ex_dup_s0
       = RunCloneAlign ex_dup_s1 [ex_A, ex_B] ex_inputs True False
   \<and> float_ge ex_float (float_one_minus ex_float (none_freq ex_result_dup))
        (min_record_freq ex_self_dup)
   \<and> record_and_decide ex_float ex_self_dup ex_tree [''x1'', ''x1''] [ex_A, ex_B] ex_inputs
        True False ex_result_dup ex_dup_s1 = Inr (Proceed ex_dup_s2)
   \<and> ''x1'' \<in> set [''x1'', ''x1'']
   \<and> [''x1'', ''x1''] ! 0 = ''x1'' \<and> clone_assign ex_result_dup ! 0 = None
   \<and> map_of (clone_assign_dict ex_dup_s0) ''x1'' = Some ''R''
   \<and> map_of (clone_assign_dict ex_dup_s2) ''x1'' = Some ''A''
   \<and> ''x1'' \<in> set (child_cells [''x1'', ''x1''] (clone_assign ex_result_dup) 0)
   \<and> assign_cells_to_tree ex_float ex_self_dup ex_pb (\<lambda>c e h a v. Some ex_result_dup) ex_state
       = Inr ex_dup_end
   \<and> map_of (clone_assign_dict ex_dup_end) ''x1'' = Some ''A''"
proof -
  have 1: "input_cells ex_self_dup = Inr [''x1'', ''x1'']"
    by (simp add: input_cells_def ex_self_dup_def ex_defs)
  have 2: "record_clone_assign_to_default [''x1'', ''x1''] (tree ex_self_dup)
        (ex_state\<lparr>pruned_clades := {}\<rparr>) = ex_dup_s0"
    by (simp add: record_clone_assign_to_default_def clone_assign_store_def ex_self_dup_def
          ex_dup_s0_def ex_defs)
  have 3: "visit_guards ex_self_dup ex_pb ex_tree [''x1'', ''x1''] 0 ex_dup_s0
       = RunCloneAlign ex_dup_s1 [ex_A, ex_B] ex_inputs True False"
    by (simp add: visit_defs ex_self_dup_def ex_dup_s0_def ex_dup_s1_def ex_defs)
  have 4: "float_ge ex_float (float_one_minus ex_float (none_freq ex_result_dup))
        (min_record_freq ex_self_dup)"
    by (simp add: ex_result_dup_def ex_self_dup_def ex_defs)
  have 5: "record_and_decide ex_float ex_self_dup ex_tree [''x1'', ''x1''] [ex_A, ex_B] ex_inputs
        True False ex_result_dup ex_dup_s1 = Inr (Proceed ex_dup_s2)"
    by (simp add: visit_defs ex_self_dup_def ex_result_dup_def ex_dup_s0_def ex_dup_s1_def
          ex_dup_s2_def ex_defs)
  have 6: "map_of (clone_assign_dict ex_dup_s0) ''x1'' = Some ''R''"
    "map_of (clone_assign_dict ex_dup_s2) ''x1'' = Some ''A''"
    "map_of (clone_assign_dict ex_dup_end) ''x1'' = Some ''A''"
    "clone_assign ex_result_dup ! 0 = None"
    "''x1'' \<in> set (child_cells [''x1'', ''x1''] (clone_assign ex_result_dup) 0)"
    by (simp_all add: child_cells_def ex_result_dup_def ex_dup_s0_def ex_dup_s1_def ex_dup_s2_def
          ex_dup_end_def)
  have 7: "assign_cells_to_tree ex_float ex_self_dup ex_pb (\<lambda>c e h a v. Some ex_result_dup)
             ex_state = Inr ex_dup_end"
    by (simp add: assign_cells_to_tree_def input_cells_def record_clone_assign_to_default_def
          assign_cells_to_clade.simps visit_defs ex_self_dup_def ex_result_dup_def
          ex_dup_s0_def ex_dup_s1_def ex_dup_s2_def ex_dup_end_def ex_defs insert_commute)
  from 1 2 3 4 5 6 7 show ?thesis by simp
qed

text \<open>
  Claim C9, as amended. In a visit whose inference result is committed, an eligible cell
  whose returned index is missing at every position where the cell stands in \<open>expr_cells\<close>
  (with pairwise distinct cells: at its position) has the same assignment after the commit
  as before the visit, is in none of the cell lists handed to the visits of the clean
  clades, and still has that assignment when the visit, with all its recursive visits,
  returns.
\<close>

theorem missing_index_keeps_assignment:
  assumes "visit_guards self pb current_clade expr_cells level s
             = RunCloneAlign s1 clean_clades inp has_total_copy_number_data
                 has_allele_specific_data"
    and "run_clonealign_pyro_repeat (cnv inp) (expr inp) (hscn inp) (snv_allele inp) (snv inp)
           = Some r"
    and "record_and_decide fl self current_clade expr_cells clean_clades inp
           has_total_copy_number_data has_allele_specific_data r s1 = Inr d"
    and "float_ge fl (float_one_minus fl (none_freq r)) (min_record_freq self)"
    and "cell \<in> set expr_cells"
    and "\<forall>a. (cell, a) \<in> set (zip expr_cells (clone_assign r)) \<longrightarrow> a = None"
  shows "map_of (clone_assign_dict (decided_state d)) cell = map_of (clone_assign_dict s) cell
     \<and> (\<forall>i. cell \<notin> set (child_cells expr_cells (clone_assign r) i))
     \<and> (\<forall>s'. assign_cells_to_clade fl self pb run_clonealign_pyro_repeat current_clade expr_cells
                 level s = Inr s'
              \<longrightarrow> map_of (clone_assign_dict s') cell = map_of (clone_assign_dict s) cell)"
proof -
  note g = visit_guards_RunCloneAlign [OF assms(1)]
  note dd = record_and_decide_Inr [OF assms(3)]
  have nz: "cell \<notin> {c. \<exists>j. (c, Some j) \<in> set (zip expr_cells (clone_assign r))}"
    using assms(6) by auto
  have nc: "cell \<notin> fst ` set (rev (commit_stores expr_cells (clone_assign r) clean_clades))"
    using nz commit_stores_zip [of expr_cells "clone_assign r" clean_clades] by auto
  have c1: "map_of (clone_assign_dict (decided_state d)) cell = map_of (clone_assign_dict s) cell"
    using dd g assms(4) map_of_append_notin [OF nc] by simp
  have c2: "\<forall>i. cell \<notin> set (child_cells expr_cells (clone_assign r) i)"
    using nz by (auto dest: child_cells_zip)
  have c3: "map_of (clone_assign_dict s') cell = map_of (clone_assign_dict s) cell"
    if a: "assign_cells_to_clade fl self pb run_clonealign_pyro_repeat current_clade expr_cells
             level s = Inr s'" for s'
  proof (cases d)
    case (Stop s2)
    with a assms(1,2,3) have "s' = s2" by (simp add: assign_cells_to_clade.simps)
    with c1 Stop show ?thesis by simp
  next
    case (Proceed s2)
    with a assms(1,2,3)
    have "proceed_loop fl self pb run_clonealign_pyro_repeat clean_clades 0 expr_cells
            (clone_assign r) level s2 = Inr s'"
      by (simp add: assign_cells_to_clade.simps)
    from visit_stores(2) [OF this] obtain W where
      W: "clone_assign_dict s' = W @ clone_assign_dict s2"
        "fst ` set W \<subseteq> {c. \<exists>j. (c, Some j) \<in> set (zip expr_cells (clone_assign r))}"
      by blast
    with nz have "cell \<notin> fst ` set W" by blast
    from map_of_append_notin [OF this] W c1 Proceed show ?thesis by simp
  qed
  from c1 c2 c3 show ?thesis by blast
qed

theorem missing_index_keeps_assignment_witness:
  "map_of (clone_assign_dict ex_s2) ''x3'' = Some ''R''
   \<and> map_of (clone_assign_dict ex_s0) ''x3'' = Some ''R''
   \<and> ''x3'' \<notin> set (child_cells ex_cells (clone_assign ex_result) 0)
   \<and> ''x3'' \<notin> set (child_cells ex_cells (clone_assign ex_result) 1)"
proof -
  have h4: "float_ge ex_float (float_one_minus ex_float (none_freq ex_result)) (min_record_freq ex_self)"
    and h5: "''x3'' \<in> set ex_cells"
    and h6: "\<forall>a. (''x3'', a) \<in> set (zip ex_cells (clone_assign ex_result)) \<longrightarrow> a = None"
    by (simp_all add: ex_defs)
  show ?thesis
    using missing_index_keeps_assignment [where run_clonealign_pyro_repeat = ex_run,
        OF ex_visit_guards ex_run_returns ex_record_and_decide h4 h5 h6]
    by (simp add: ex_defs)
qed

subsection \<open>C10\<close>

text \<open>
  Claim C10. The cells of a run are the columns of \<open>expr_df\<close> when it is present and those
  of \<open>snv_df\<close> otherwise; with neither table the entry point raises. These cells are the
  ones set to the name of the root and handed to the visit of the root at level 0.
\<close>

theorem input_cells_from_expr_else_snv:
  "(expr_df self = Some d \<longrightarrow> input_cells self = Inr (columns d))
   \<and> (expr_df self = None \<and> snv_df self = Some d \<longrightarrow> input_cells self = Inr (columns d))
   \<and> (expr_df self = None \<and> snv_df self = None \<longrightarrow>
        assign_cells_to_tree fl self pb run_clonealign_pyro_repeat s = Inl AttributeError)
   \<and> (input_cells self = Inr cells \<longrightarrow>
        assign_cells_to_tree fl self pb run_clonealign_pyro_repeat s
          = assign_cells_to_clade fl self pb run_clonealign_pyro_repeat (tree self) cells 0
              (record_clone_assign_to_default cells (tree self) (s\<lparr>pruned_clades := {}\<rparr>))
        \<and> clone_assign_dict
             (record_clone_assign_to_default cells (tree self) (s\<lparr>pruned_clades := {}\<rparr>))
            = rev (map (\<lambda>cell. (cell, name (tree self))) cells) @ clone_assign_dict s)"
  by (simp add: input_cells_def assign_cells_to_tree_def record_clone_assign_to_default_def)

theorem input_cells_from_expr_else_snv_witness:
  "input_cells ex_self = Inr [''x1'', ''x2'', ''x3'']
   \<and> input_cells (ex_self\<lparr>expr_df := None, snv_df := Some ex_cnv\<rparr>) = Inr [''A'', ''B'']
   \<and> assign_cells_to_tree ex_float (ex_self\<lparr>expr_df := None\<rparr>) ex_pb ex_run ex_state = Inl AttributeError
   \<and> clone_assign_dict
        (record_clone_assign_to_default [''x1'', ''x2'', ''x3''] (tree ex_self)
           (ex_state\<lparr>pruned_clades := {}\<rparr>))
       = [(''x3'', ''R''), (''x2'', ''R''), (''x1'', ''R'')]"
  using input_cells_from_expr_else_snv [where self = ex_self and d = ex_expr and fl = ex_float
      and pb = ex_pb and run_clonealign_pyro_repeat = ex_run and s = ex_state
      and cells = "[''x1'', ''x2'', ''x3'']"]
    input_cells_from_expr_else_snv [where self = "ex_self\<lparr>expr_df := None, snv_df := Some ex_cnv\<rparr>"
      and d = ex_cnv and fl = ex_float]
    input_cells_from_expr_else_snv [where self = "ex_self\<lparr>expr_df := None\<rparr>" and fl = ex_float
      and pb = ex_pb and run_clonealign_pyro_repeat = ex_run and s = ex_state]
  by (simp add: ex_defs)

end
